theory Spec2Isabelle
  imports Main
begin

unbundle bit_operations_syntax

section \<open>Python strings\<close>

text \<open>
  A Python \<^verbatim>\<open>str\<close> is modelled as a \<^typ>\<open>string\<close>: each \<^typ>\<open>char\<close> stands for
  the code point of the same number (0 to 255). Python integers are \<^typ>\<open>int\<close>.
\<close>

definition ord :: "char \<Rightarrow> nat" where
  "ord c = of_char c"

text \<open>\<^verbatim>\<open>c.isspace()\<close> for a code point below 256.\<close>

definition isspace :: "char \<Rightarrow> bool" where
  "isspace c = (ord c \<in> {9, 10, 11, 12, 13, 28, 29, 30, 31, 32, 133, 160})"

text \<open>\<^verbatim>\<open>s.strip()\<close>: leading and trailing whitespace removed.\<close>

definition strip :: "string \<Rightarrow> string" where
  "strip s = rev (dropWhile isspace (rev (dropWhile isspace s)))"

text \<open>\<^verbatim>\<open>c.lower()\<close> for a code point below 256.\<close>

definition lower_char :: "char \<Rightarrow> char" where
  "lower_char c =
     (if (65 \<le> ord c \<and> ord c \<le> 90) \<or> (192 \<le> ord c \<and> ord c \<le> 214) \<or> (216 \<le> ord c \<and> ord c \<le> 222)
      then char_of (ord c + 32) else c)"

definition lower :: "string \<Rightarrow> string" where
  "lower s = map lower_char s"

text \<open>\<^verbatim>\<open>s.split(sep)\<close> for a separator of one character; the result is never empty.\<close>

fun split :: "char \<Rightarrow> string \<Rightarrow> string list" where
  "split sep [] = [[]]"
| "split sep (c # cs) =
     (if c = sep then [] # split sep cs
      else (c # hd (split sep cs)) # tl (split sep cs))"

text \<open>\<^verbatim>\<open>s.isascii() and s.isdigit()\<close>: a non-empty run of the characters 0 to 9.\<close>

definition is_decimal_char :: "char \<Rightarrow> bool" where
  "is_decimal_char c = (48 \<le> ord c \<and> ord c \<le> 57)"

definition isascii_isdigit :: "string \<Rightarrow> bool" where
  "isascii_isdigit s = (s \<noteq> [] \<and> list_all is_decimal_char s)"

text \<open>\<^verbatim>\<open>int(s, 10)\<close> on a string of decimal digits.\<close>

definition int_of_digits :: "string \<Rightarrow> int" where
  "int_of_digits s = foldl (\<lambda>acc c. acc * 10 + (int (ord c) - 48)) 0 s"

text \<open>\<^verbatim>\<open>n.bit_length()\<close> for a non-negative \<open>n\<close>.\<close>

fun bit_length :: "nat \<Rightarrow> nat" where
  "bit_length n = (if n = 0 then 0 else Suc (bit_length (n div 2)))"

declare bit_length.simps [simp del]

section \<open>The standard library's \<^verbatim>\<open>ipaddress\<close> module, IPv4 part\<close>

text \<open>
  The two exceptions of the module that the program catches. Both are subclasses of
  \<^verbatim>\<open>ValueError\<close> and neither is a subclass of the other.
\<close>

datatype py_error = AddressValueError | NetmaskValueError

definition ALL_ONES :: int where
  "ALL_ONES = 2 ^ 32 - 1"

definition max_prefixlen :: nat where
  "max_prefixlen = 32"

text \<open>\<^verbatim>\<open>_parse_octet\<close>: \<open>None\<close> is its \<^verbatim>\<open>ValueError\<close>.\<close>

definition parse_octet :: "string \<Rightarrow> int option" where
  "parse_octet octet_str =
     (if octet_str = [] then None
      else if \<not> isascii_isdigit octet_str then None
      else if length octet_str > 3 then None
      else if octet_str \<noteq> ''0'' \<and> hd octet_str = CHR ''0'' then None
      else if int_of_digits octet_str > 255 then None
      else Some (int_of_digits octet_str))"

text \<open>\<^verbatim>\<open>int.from_bytes(bs, 'big')\<close>.\<close>

definition from_bytes_big :: "int list \<Rightarrow> int" where
  "from_bytes_big bs = foldl (\<lambda>acc b. acc * 256 + b) 0 bs"

text \<open>Every element parsed, or \<open>None\<close> at the first failure.\<close>

fun parse_octets :: "string list \<Rightarrow> int list option" where
  "parse_octets [] = Some []"
| "parse_octets (s # ss) =
     (case parse_octet s of
        None \<Rightarrow> None
      | Some b \<Rightarrow> (case parse_octets ss of None \<Rightarrow> None | Some bs \<Rightarrow> Some (b # bs)))"

text \<open>\<^verbatim>\<open>_ip_int_from_string\<close>: \<open>None\<close> is its \<^verbatim>\<open>AddressValueError\<close>.\<close>

definition ip_int_from_string :: "string \<Rightarrow> int option" where
  "ip_int_from_string ip_str =
     (if ip_str = [] then None
      else let octets = split CHR ''.'' ip_str in
        if length octets \<noteq> 4 then None
        else (case parse_octets octets of
                None \<Rightarrow> None
              | Some bs \<Rightarrow> Some (from_bytes_big bs)))"

text \<open>\<^verbatim>\<open>IPv4Address(s)\<close> for a string \<open>s\<close>; the value is the field \<^verbatim>\<open>_ip\<close>.\<close>

definition IPv4Address :: "string \<Rightarrow> py_error + int" where
  "IPv4Address addr_str =
     (if CHR ''/'' \<in> set addr_str then Inl AddressValueError
      else (case ip_int_from_string addr_str of
              None \<Rightarrow> Inl AddressValueError
            | Some ip \<Rightarrow> Inr ip))"

text \<open>\<^verbatim>\<open>_ip_int_from_prefix\<close>.\<close>

definition ip_int_from_prefix :: "nat \<Rightarrow> int" where
  "ip_int_from_prefix prefixlen = ALL_ONES XOR (drop_bit prefixlen ALL_ONES)"

text \<open>\<^verbatim>\<open>_count_righthand_zero_bits\<close>.\<close>

definition count_righthand_zero_bits :: "int \<Rightarrow> nat \<Rightarrow> nat" where
  "count_righthand_zero_bits number bits =
     (if number = 0 then bits
      else min bits (bit_length (nat (NOT number AND (number - 1)))))"

text \<open>\<^verbatim>\<open>_prefix_from_ip_int\<close>: \<open>None\<close> is its \<^verbatim>\<open>ValueError\<close>.\<close>

definition prefix_from_ip_int :: "int \<Rightarrow> nat option" where
  "prefix_from_ip_int ip_int =
     (let trailing_zeroes = count_righthand_zero_bits ip_int max_prefixlen;
          prefixlen = max_prefixlen - trailing_zeroes;
          leading_ones = drop_bit trailing_zeroes ip_int;
          all_ones = push_bit prefixlen 1 - 1
      in if leading_ones \<noteq> all_ones then None else Some prefixlen)"

text \<open>\<^verbatim>\<open>_prefix_from_prefix_string\<close>: \<open>None\<close> is its \<^verbatim>\<open>NetmaskValueError\<close>.\<close>

definition prefix_from_prefix_string :: "string \<Rightarrow> nat option" where
  "prefix_from_prefix_string prefixlen_str =
     (if \<not> isascii_isdigit prefixlen_str then None
      else if \<not> (0 \<le> int_of_digits prefixlen_str \<and> int_of_digits prefixlen_str \<le> int max_prefixlen)
      then None
      else Some (nat (int_of_digits prefixlen_str)))"

text \<open>\<^verbatim>\<open>_prefix_from_ip_string\<close>: \<open>None\<close> is its \<^verbatim>\<open>NetmaskValueError\<close>.\<close>

definition prefix_from_ip_string :: "string \<Rightarrow> nat option" where
  "prefix_from_ip_string ip_str =
     (case ip_int_from_string ip_str of
        None \<Rightarrow> None
      | Some ip_int \<Rightarrow>
          (case prefix_from_ip_int ip_int of
             Some p \<Rightarrow> Some p
           | None \<Rightarrow> prefix_from_ip_int (ip_int XOR ALL_ONES)))"

text \<open>
  \<^verbatim>\<open>_make_netmask\<close> for a string argument; the netmask itself is
  \<^verbatim>\<open>_ip_int_from_prefix\<close> of the prefix length returned here.
\<close>

definition make_netmask :: "string \<Rightarrow> py_error + nat" where
  "make_netmask arg =
     (case prefix_from_prefix_string arg of
        Some p \<Rightarrow> Inr p
      | None \<Rightarrow>
          (case prefix_from_ip_string arg of
             Some p \<Rightarrow> Inr p
           | None \<Rightarrow> Inl NetmaskValueError))"

text \<open>
  An \<^verbatim>\<open>IPv4Network\<close> object: the integer of its network address and its prefix length.
  The fields \<^verbatim>\<open>netmask\<close>, \<^verbatim>\<open>hostmask\<close> and \<^verbatim>\<open>broadcast_address\<close> are computed from
  these two.
\<close>

record IPv4Network =
  network_address :: int
  prefixlen :: nat

definition netmask :: "IPv4Network \<Rightarrow> int" where
  "netmask n = ip_int_from_prefix (prefixlen n)"

definition hostmask :: "IPv4Network \<Rightarrow> int" where
  "hostmask n = netmask n XOR ALL_ONES"

definition broadcast_address :: "IPv4Network \<Rightarrow> int" where
  "broadcast_address n = network_address n OR hostmask n"

text \<open>
  \<^verbatim>\<open>IPv4Network(address, strict=False)\<close> for a string: the address part is parsed
  before the mask, and host bits are cleared.
\<close>

definition IPv4Network_nonstrict :: "string \<Rightarrow> py_error + IPv4Network" where
  "IPv4Network_nonstrict address =
     (let parts = split CHR ''/'' address in
      if length parts > 2 then Inl AddressValueError
      else (case IPv4Address (hd parts) of
              Inl e \<Rightarrow> Inl e
            | Inr packed \<Rightarrow>
                (case (if length parts > 1 then make_netmask (parts ! 1) else Inr max_prefixlen) of
                   Inl e \<Rightarrow> Inl e
                 | Inr p \<Rightarrow>
                     Inr \<lparr>network_address = packed AND ip_int_from_prefix p, prefixlen = p\<rparr>)))"

text \<open>\<^verbatim>\<open>__eq__\<close> of two networks.\<close>

definition net_eq :: "IPv4Network \<Rightarrow> IPv4Network \<Rightarrow> bool" where
  "net_eq a b = (network_address a = network_address b \<and> netmask a = netmask b)"

text \<open>\<^verbatim>\<open>__contains__\<close>: an address in a network.\<close>

definition contains_addr :: "IPv4Network \<Rightarrow> int \<Rightarrow> bool" where
  "contains_addr n ip = (ip AND netmask n = network_address n)"

definition overlaps :: "IPv4Network \<Rightarrow> IPv4Network \<Rightarrow> bool" where
  "overlaps a b =
     (contains_addr b (network_address a) \<or>
      (contains_addr b (broadcast_address a) \<or>
       (contains_addr a (network_address b) \<or>
        contains_addr a (broadcast_address b))))"

text \<open>\<^verbatim>\<open>_is_subnet_of(a, b)\<close>, \<^verbatim>\<open>subnet_of\<close> and \<^verbatim>\<open>supernet_of\<close>.\<close>

definition is_subnet_of :: "IPv4Network \<Rightarrow> IPv4Network \<Rightarrow> bool" where
  "is_subnet_of a b =
     (network_address b \<le> network_address a \<and> broadcast_address b \<ge> broadcast_address a)"

definition subnet_of :: "IPv4Network \<Rightarrow> IPv4Network \<Rightarrow> bool" where
  "subnet_of a b = is_subnet_of a b"

definition supernet_of :: "IPv4Network \<Rightarrow> IPv4Network \<Rightarrow> bool" where
  "supernet_of a b = is_subnet_of b a"

text \<open>\<^verbatim>\<open>is_multicast\<close> of an address and of a network; the constant is 224.0.0.0/4.\<close>

definition multicast_network :: IPv4Network where
  "multicast_network = \<lparr>network_address = 3758096384, prefixlen = 4\<rparr>"

definition addr_is_multicast :: "int \<Rightarrow> bool" where
  "addr_is_multicast ip = contains_addr multicast_network ip"

definition is_multicast :: "IPv4Network \<Rightarrow> bool" where
  "is_multicast n = (addr_is_multicast (network_address n) \<and> addr_is_multicast (broadcast_address n))"

text \<open>\<^verbatim>\<open>str(n)\<close> for a non-negative integer, and \<^verbatim>\<open>str(network)\<close>.\<close>

fun str_nat :: "nat \<Rightarrow> string" where
  "str_nat n =
     (if n < 10 then [char_of (48 + n)]
      else str_nat (n div 10) @ [char_of (48 + n mod 10)])"

declare str_nat.simps [simp del]

definition string_from_ip_int :: "int \<Rightarrow> string" where
  "string_from_ip_int ip_int =
     str_nat (nat (ip_int div 2 ^ 24 mod 256)) @ ''.'' @
     str_nat (nat (ip_int div 2 ^ 16 mod 256)) @ ''.'' @
     str_nat (nat (ip_int div 2 ^ 8 mod 256)) @ ''.'' @
     str_nat (nat (ip_int mod 256))"

definition str_network :: "IPv4Network \<Rightarrow> string" where
  "str_network n = string_from_ip_int (network_address n) @ ''/'' @ str_nat (prefixlen n)"

section \<open>\<^verbatim>\<open>utils/ip_validator.py\<close>\<close>

text \<open>
  The failures of \<^verbatim>\<open>validate_input\<close>, one constructor for each message it returns
  with \<^verbatim>\<open>False\<close>:
  \<^item> \<open>EmptyInput\<close>: "Empty input provided";
  \<^item> \<open>MalformedAddress\<close>: "Invalid IP address format: ...";
  \<^item> \<open>MalformedCidr\<close>: "Invalid CIDR notation: ...";
  \<^item> \<open>UnsupportedAddressClass Multicast\<close>: "Multicast addresses are not supported in VNet";
  \<^item> \<open>UnsupportedAddressClass ClassE\<close>: "Class E addresses are not supported";
  \<^item> \<open>UserCancelled\<close>: "Operation cancelled by user".
\<close>

datatype address_class = Multicast | ClassE

datatype validation_error =
    EmptyInput
  | MalformedAddress
  | MalformedCidr
  | UnsupportedAddressClass address_class
  | UserCancelled

text \<open>
  \<^verbatim>\<open>validate_input\<close>. Two things come from outside the function and are parameters:
  \<open>is_global\<close>, the library's property of that name, and \<open>answer\<close>, the line the
  user types when asked to confirm a public address (read only in that case).
\<close>

definition validate_input ::
  "(IPv4Network \<Rightarrow> bool) \<Rightarrow> string \<Rightarrow> string \<Rightarrow> validation_error + IPv4Network" where
  "validate_input is_global answer ip_input =
     (if strip ip_input = [] then Inl EmptyInput
      else
        (case (if CHR ''/'' \<notin> set (strip ip_input)
               then (case IPv4Address (strip ip_input) of
                       Inl e \<Rightarrow> Inl MalformedAddress
                     | Inr ip \<Rightarrow> Inr (strip ip_input @ ''/32''))
               else Inr (strip ip_input)) of
           Inl err \<Rightarrow> Inl err
         | Inr ip_input' \<Rightarrow>
             (case IPv4Network_nonstrict ip_input' of
                Inl e \<Rightarrow> Inl MalformedCidr
              | Inr network \<Rightarrow>
                  if is_multicast network then Inl (UnsupportedAddressClass Multicast)
                  else if network_address network \<ge> 4026531840
                  then Inl (UnsupportedAddressClass ClassE)
                  else if is_global network \<and> lower (strip answer) \<notin> set [''y'', ''yes'']
                  then Inl UserCancelled
                  else Inr network)))"

datatype relationship = Exact | Contains | Contained | Overlap | NoRel | HostInSubnet

text \<open>
  \<^verbatim>\<open>is_subnet_overlap\<close>; \<open>NoRel\<close> is the string \<^verbatim>\<open>'none'\<close>. \<open>HostInSubnet\<close> is
  never returned here: it is the sixth relationship string, written by the analyzer.
\<close>

definition is_subnet_overlap :: "IPv4Network \<Rightarrow> IPv4Network \<Rightarrow> relationship" where
  "is_subnet_overlap network1 network2 =
     (if net_eq network1 network2 then Exact
      else if supernet_of network1 network2 then Contains
      else if subnet_of network1 network2 then Contained
      else if overlaps network1 network2 then Overlap
      else NoRel)"

definition check_host_in_network :: "IPv4Network \<Rightarrow> IPv4Network \<Rightarrow> bool" where
  "check_host_in_network host_network subnet =
     (if prefixlen host_network = 32 then contains_addr subnet (network_address host_network)
      else False)"

section \<open>\<^verbatim>\<open>core/subnet_analyzer.py\<close>\<close>

text \<open>The records the inventory client hands over: a VNet and its subnets.\<close>

record subnet_rec =
  sn_name :: string
  address_prefix :: string

record vnet_rec =
  name :: string
  resource_group :: string
  address_prefixes :: "string list"
  subnets :: "subnet_rec list"

text \<open>
  The dictionary \<^verbatim>\<open>match_info\<close>; \<open>m_subnet_name\<close> is \<open>None\<close> where the key
  \<^verbatim>\<open>'subnet_name'\<close> is absent.
\<close>

datatype match_type = type_vnet_address_space | type_subnet

record match_info =
  m_vnet_name :: string
  m_resource_group :: string
  m_subnet_name :: "string option"
  m_type :: match_type
  m_network :: string
  m_relationship :: relationship

text \<open>The dictionary \<^verbatim>\<open>results['matches']\<close> and the dictionary \<^verbatim>\<open>results\<close>.\<close>

record matches_rec =
  exact :: "match_info list"
  contains :: "match_info list"
  contained :: "match_info list"
  overlap :: "match_info list"
  host_in_subnet :: "match_info list"

record results_rec =
  target_network :: string
  is_host :: bool
  matches :: matches_rec
  total_vnets_checked :: nat
  total_subnets_checked :: nat

text \<open>
  What the analyzer prints, one constructor for each \<^verbatim>\<open>print\<close> call (colours left
  out). The two \<open>Invalid...\<close> lines are its warnings about a prefix it skips.
\<close>

datatype out_line =
    AnalyzingNetwork string
  | CheckingVNets nat
  | CheckingVNet string string
  | VNetExactMatch string
  | VNetSupernet string
  | VNetSubnet string
  | VNetOverlap string
  | InvalidVNetPrefix string
  | HostFound string string
  | SubnetExactMatch string string
  | SubnetSupernet string string
  | SubnetSubnet string string
  | SubnetOverlap string string
  | InvalidSubnetPrefix string

text \<open>The mutable state of a run: the dictionary \<^verbatim>\<open>results\<close> and the standard output.\<close>

type_synonym run_state = "results_rec \<times> out_line list"

definition append_exact :: "match_info \<Rightarrow> results_rec \<Rightarrow> results_rec" where
  "append_exact m r = r\<lparr>matches := (matches r)\<lparr>exact := exact (matches r) @ [m]\<rparr>\<rparr>"

definition append_contains :: "match_info \<Rightarrow> results_rec \<Rightarrow> results_rec" where
  "append_contains m r = r\<lparr>matches := (matches r)\<lparr>contains := contains (matches r) @ [m]\<rparr>\<rparr>"

definition append_contained :: "match_info \<Rightarrow> results_rec \<Rightarrow> results_rec" where
  "append_contained m r = r\<lparr>matches := (matches r)\<lparr>contained := contained (matches r) @ [m]\<rparr>\<rparr>"

definition append_overlap :: "match_info \<Rightarrow> results_rec \<Rightarrow> results_rec" where
  "append_overlap m r = r\<lparr>matches := (matches r)\<lparr>overlap := overlap (matches r) @ [m]\<rparr>\<rparr>"

definition append_host_in_subnet :: "match_info \<Rightarrow> results_rec \<Rightarrow> results_rec" where
  "append_host_in_subnet m r =
     r\<lparr>matches := (matches r)\<lparr>host_in_subnet := host_in_subnet (matches r) @ [m]\<rparr>\<rparr>"

text \<open>
  The body of the first loop of \<^verbatim>\<open>_analyze_vnet\<close> once the prefix is parsed: the
  classification of the target against one address space of the VNet.
\<close>

definition classify_address_space ::
  "IPv4Network \<Rightarrow> IPv4Network \<Rightarrow> string \<Rightarrow> string \<Rightarrow> run_state \<Rightarrow> run_state" where
  "classify_address_space target vnet_network vnet_name rg st =
     (let rel = is_subnet_overlap target vnet_network in
      if rel \<noteq> NoRel then
        (let m = \<lparr>m_vnet_name = vnet_name, m_resource_group = rg, m_subnet_name = None,
                  m_type = type_vnet_address_space, m_network = str_network vnet_network,
                  m_relationship = rel\<rparr>
         in if rel = Exact then
              (append_exact m (fst st), snd st @ [VNetExactMatch (str_network vnet_network)])
            else if rel = Contains then
              (append_contains m (fst st), snd st @ [VNetSupernet (str_network vnet_network)])
            else if rel = Contained then
              (append_contained m (fst st), snd st @ [VNetSubnet (str_network vnet_network)])
            else if rel = Overlap then
              (append_overlap m (fst st), snd st @ [VNetOverlap (str_network vnet_network)])
            else st)
      else st)"

text \<open>
  The whole body of that loop, for one address prefix. Only \<^verbatim>\<open>AddressValueError\<close>
  is caught; any other exception leaves the function.
\<close>

definition analyze_address_prefix ::
  "IPv4Network \<Rightarrow> string \<Rightarrow> string \<Rightarrow> string \<Rightarrow> run_state \<Rightarrow> py_error + run_state" where
  "analyze_address_prefix target vnet_name rg prefix st =
     (case IPv4Network_nonstrict prefix of
        Inl AddressValueError \<Rightarrow> Inr (fst st, snd st @ [InvalidVNetPrefix prefix])
      | Inl NetmaskValueError \<Rightarrow> Inl NetmaskValueError
      | Inr vnet_network \<Rightarrow> Inr (classify_address_space target vnet_network vnet_name rg st))"

fun analyze_address_prefixes ::
  "IPv4Network \<Rightarrow> string \<Rightarrow> string \<Rightarrow> string list \<Rightarrow> run_state \<Rightarrow> py_error + run_state" where
  "analyze_address_prefixes target vnet_name rg [] st = Inr st"
| "analyze_address_prefixes target vnet_name rg (prefix # rest) st =
     (case analyze_address_prefix target vnet_name rg prefix st of
        Inl e \<Rightarrow> Inl e
      | Inr st' \<Rightarrow> analyze_address_prefixes target vnet_name rg rest st')"

text \<open>
  The part of \<^verbatim>\<open>_analyze_subnet\<close> after the host check: the general classification
  of the target against the parsed subnet.
\<close>

definition classify_subnet ::
  "IPv4Network \<Rightarrow> string \<Rightarrow> IPv4Network \<Rightarrow> string \<Rightarrow> string \<Rightarrow> run_state \<Rightarrow> run_state" where
  "classify_subnet target subnet_name subnet_network vnet_name rg st =
     (let rel = is_subnet_overlap target subnet_network in
      if rel \<noteq> NoRel then
        (let m = \<lparr>m_vnet_name = vnet_name, m_resource_group = rg, m_subnet_name = Some subnet_name,
                  m_type = type_subnet, m_network = str_network subnet_network, m_relationship = rel\<rparr>
         in if rel = Exact then
              (append_exact m (fst st),
               snd st @ [SubnetExactMatch subnet_name (str_network subnet_network)])
            else if rel = Contains then
              (append_contains m (fst st),
               snd st @ [SubnetSupernet subnet_name (str_network subnet_network)])
            else if rel = Contained then
              (append_contained m (fst st),
               snd st @ [SubnetSubnet subnet_name (str_network subnet_network)])
            else if rel = Overlap then
              (append_overlap m (fst st),
               snd st @ [SubnetOverlap subnet_name (str_network subnet_network)])
            else st)
      else st)"

text \<open>\<^verbatim>\<open>_analyze_subnet\<close>. Only \<^verbatim>\<open>AddressValueError\<close> is caught.\<close>

definition analyze_subnet ::
  "IPv4Network \<Rightarrow> subnet_rec \<Rightarrow> string \<Rightarrow> string \<Rightarrow> run_state \<Rightarrow> py_error + run_state" where
  "analyze_subnet target sn vnet_name rg st =
     (case IPv4Network_nonstrict (address_prefix sn) of
        Inl AddressValueError \<Rightarrow> Inr (fst st, snd st @ [InvalidSubnetPrefix (address_prefix sn)])
      | Inl NetmaskValueError \<Rightarrow> Inl NetmaskValueError
      | Inr subnet_network \<Rightarrow>
          if prefixlen target = 32 \<and> check_host_in_network target subnet_network then
            Inr (append_host_in_subnet
                   \<lparr>m_vnet_name = vnet_name, m_resource_group = rg,
                    m_subnet_name = Some (sn_name sn), m_type = type_subnet,
                    m_network = str_network subnet_network, m_relationship = HostInSubnet\<rparr>
                   (fst st),
                 snd st @ [HostFound (sn_name sn) (str_network subnet_network)])
          else Inr (classify_subnet target (sn_name sn) subnet_network vnet_name rg st))"

text \<open>The second loop of \<^verbatim>\<open>_analyze_vnet\<close>: each subnet analysed, then counted.\<close>

fun analyze_subnets ::
  "IPv4Network \<Rightarrow> string \<Rightarrow> string \<Rightarrow> subnet_rec list \<Rightarrow> run_state \<Rightarrow> py_error + run_state" where
  "analyze_subnets target vnet_name rg [] st = Inr st"
| "analyze_subnets target vnet_name rg (sn # rest) st =
     (case analyze_subnet target sn vnet_name rg st of
        Inl e \<Rightarrow> Inl e
      | Inr st' \<Rightarrow>
          analyze_subnets target vnet_name rg rest
            ((fst st')\<lparr>total_subnets_checked := total_subnets_checked (fst st') + 1\<rparr>, snd st'))"

text \<open>\<^verbatim>\<open>_analyze_vnet\<close>.\<close>

definition analyze_vnet :: "IPv4Network \<Rightarrow> vnet_rec \<Rightarrow> run_state \<Rightarrow> py_error + run_state" where
  "analyze_vnet target vnet st =
     (case analyze_address_prefixes target (name vnet) (resource_group vnet) (address_prefixes vnet)
             (fst st, snd st @ [CheckingVNet (name vnet) (resource_group vnet)]) of
        Inl e \<Rightarrow> Inl e
      | Inr st' \<Rightarrow> analyze_subnets target (name vnet) (resource_group vnet) (subnets vnet) st')"

fun analyze_vnets :: "IPv4Network \<Rightarrow> vnet_rec list \<Rightarrow> run_state \<Rightarrow> py_error + run_state" where
  "analyze_vnets target [] st = Inr st"
| "analyze_vnets target (vnet # rest) st =
     (case analyze_vnet target vnet st of
        Inl e \<Rightarrow> Inl e
      | Inr st' \<Rightarrow> analyze_vnets target rest st')"

text \<open>
  \<^verbatim>\<open>analyze_ip_usage\<close>: the dictionary it returns and what it has printed, or the
  exception that left it.
\<close>

definition initial_results :: "IPv4Network \<Rightarrow> vnet_rec list \<Rightarrow> results_rec" where
  "initial_results target vnets =
     \<lparr>target_network = str_network target,
      is_host = (prefixlen target = 32),
      matches = \<lparr>exact = [], contains = [], contained = [], overlap = [], host_in_subnet = []\<rparr>,
      total_vnets_checked = length vnets,
      total_subnets_checked = 0\<rparr>"

definition analyze_ip_usage :: "IPv4Network \<Rightarrow> vnet_rec list \<Rightarrow> py_error + run_state" where
  "analyze_ip_usage target vnets =
     analyze_vnets target vnets
       (initial_results target vnets,
        [AnalyzingNetwork (str_network target), CheckingVNets (length vnets)])"

text \<open>
  \<^verbatim>\<open>results['matches'].items()\<close>, each key as the relationship it names, and the
  total that \<^verbatim>\<open>print_summary\<close> computes from the buckets.
\<close>

definition items :: "matches_rec \<Rightarrow> (relationship \<times> match_info list) list" where
  "items ms =
     [(Exact, exact ms), (Contains, contains ms), (Contained, contained ms),
      (Overlap, overlap ms), (HostInSubnet, host_in_subnet ms)]"

definition total_matches :: "results_rec \<Rightarrow> nat" where
  "total_matches r = sum_list (map (\<lambda>kv. length (snd kv)) (items (matches r)))"

section \<open>Notions used to state the properties\<close>

text \<open>
  The networks the library can construct: an address of 32 bits, a prefix length of at
  most 32, and no bit set outside the netmask.
\<close>

definition valid_network :: "IPv4Network \<Rightarrow> bool" where
  "valid_network n =
     (0 \<le> network_address n \<and> network_address n \<le> ALL_ONES \<and>
      prefixlen n \<le> max_prefixlen \<and>
      network_address n AND netmask n = network_address n)"

definition host_bits :: "IPv4Network \<Rightarrow> nat" where
  "host_bits n = 32 - prefixlen n"

text \<open>The address range of a network: the IPv4 addresses \<open>ip\<close> with \<^verbatim>\<open>ip in n\<close>.\<close>

definition addresses :: "IPv4Network \<Rightarrow> int set" where
  "addresses n = {ip. 0 \<le> ip \<and> ip \<le> ALL_ONES \<and> contains_addr n ip}"

text \<open>The two counters of a run: networks checked and subnets checked.\<close>

definition counters :: "run_state \<Rightarrow> nat \<times> nat" where
  "counters st = (total_vnets_checked (fst st), total_subnets_checked (fst st))"

text \<open>Inputs on which the properties below are evaluated.\<close>

definition example_target :: IPv4Network where
  "example_target = \<lparr>network_address = 167772160, prefixlen = 24\<rparr>"

definition example_host :: IPv4Network where
  "example_host = \<lparr>network_address = 167772165, prefixlen = 32\<rparr>"

definition example_vnets :: "vnet_rec list" where
  "example_vnets =
     [\<lparr>name = ''v'', resource_group = ''rg'', address_prefixes = [''10.0.0.0/16'', ''bad''],
       subnets = [\<lparr>sn_name = ''s'', address_prefix = ''10.0.0.0/24''\<rparr>,
                  \<lparr>sn_name = ''t'', address_prefix = ''10.0.1.0/24''\<rparr>]\<rparr>]"

definition bad_mask_vnets :: "vnet_rec list" where
  "bad_mask_vnets =
     [\<lparr>name = ''v'', resource_group = ''rg'',
       address_prefixes = [''10.0.0.0/33'', ''10.0.0.0/16''],
       subnets = [\<lparr>sn_name = ''s'', address_prefix = ''10.0.0.0/24''\<rparr>]\<rparr>]"

definition bad_mask_subnet_vnets :: "vnet_rec list" where
  "bad_mask_subnet_vnets =
     [\<lparr>name = ''v'', resource_group = ''rg'', address_prefixes = [''10.0.0.0/16''],
       subnets = [\<lparr>sn_name = ''s'', address_prefix = ''10.0.1.0/40''\<rparr>,
                  \<lparr>sn_name = ''t'', address_prefix = ''10.0.0.0/24''\<rparr>]\<rparr>]"

text \<open>A prefix that does not raise \<^verbatim>\<open>NetmaskValueError\<close>, and a VNet of such prefixes.\<close>

definition no_netmask_error :: "string \<Rightarrow> bool" where
  "no_netmask_error prefix = (IPv4Network_nonstrict prefix \<noteq> Inl NetmaskValueError)"

definition vnet_no_netmask_error :: "vnet_rec \<Rightarrow> bool" where
  "vnet_no_netmask_error vnet =
     (list_all no_netmask_error (address_prefixes vnet) \<and>
      list_all (\<lambda>sn. no_netmask_error (address_prefix sn)) (subnets vnet))"

text \<open>Every Match of a bucket carries the relationship that names the bucket.\<close>

definition buckets_labelled :: "results_rec \<Rightarrow> bool" where
  "buckets_labelled r =
     list_all (\<lambda>kv. list_all (\<lambda>m. m_relationship m = fst kv) (snd kv)) (items (matches r))"

text \<open>
  The four general buckets hold Matches of address spaces only, and the bucket
  \<open>host_in_subnet\<close> holds Matches of subnets only.
\<close>

definition subnets_only_as_host :: "results_rec \<Rightarrow> bool" where
  "subnets_only_as_host r =
     (list_all (\<lambda>m. m_type m = type_vnet_address_space)
        (exact (matches r) @ contains (matches r) @ contained (matches r) @ overlap (matches r)) \<and>
      list_all (\<lambda>m. m_type m = type_subnet \<and> m_relationship m = HostInSubnet)
        (host_in_subnet (matches r)))"

text \<open>The Match that \<^verbatim>\<open>_analyze_subnet\<close> builds when the host check succeeds.\<close>

definition host_match :: "subnet_rec \<Rightarrow> IPv4Network \<Rightarrow> string \<Rightarrow> string \<Rightarrow> match_info" where
  "host_match sn subnet_network vnet_name rg =
     \<lparr>m_vnet_name = vnet_name, m_resource_group = rg, m_subnet_name = Some (sn_name sn),
      m_type = type_subnet, m_network = str_network subnet_network,
      m_relationship = HostInSubnet\<rparr>"

definition example_state :: run_state where
  "example_state = (initial_results example_host [], [])"

definition example_subnet :: subnet_rec where
  "example_subnet = \<lparr>sn_name = ''s'', address_prefix = ''10.0.0.0/24''\<rparr>"

definition example_far_subnet :: subnet_rec where
  "example_far_subnet = \<lparr>sn_name = ''t'', address_prefix = ''10.0.1.0/24''\<rparr>"

definition example_host_vnets :: "vnet_rec list" where
  "example_host_vnets =
     [\<lparr>name = ''v'', resource_group = ''rg'', address_prefixes = [''10.0.0.0/16''],
       subnets = [example_subnet, example_far_subnet,
                  \<lparr>sn_name = ''h'', address_prefix = ''10.0.0.5/32''\<rparr>]\<rparr>]"

text \<open>
  The string that \<^verbatim>\<open>validate_input\<close> hands to \<^verbatim>\<open>IPv4Network\<close> when it gets that
  far: the trimmed input, with \<^verbatim>\<open>/32\<close> appended when it has no slash.
\<close>

definition cidr_input :: "string \<Rightarrow> string" where
  "cidr_input ip_input =
     (if CHR ''/'' \<notin> set (strip ip_input) then strip ip_input @ ''/32'' else strip ip_input)"

text \<open>
  A value for the parameter \<open>is_global\<close> on the example inputs: of the addresses used
  there, only 8.8.8.8 is public.
\<close>

definition example_is_global :: "IPv4Network \<Rightarrow> bool" where
  "example_is_global n = (network_address n = 134744072)"




text \<open>Every network is public: a value for \<open>is_global\<close> under which the user is always asked.\<close>

definition always_global :: "IPv4Network \<Rightarrow> bool" where
  "always_global n = True"

text \<open>The address part of the input: what stands before the slash of \<open>cidr_input\<close>.\<close>

definition input_address :: "string \<Rightarrow> string" where
  "input_address ip_input = hd (split CHR ''/'' (cidr_input ip_input))"

section \<open>Netmasks and address ranges\<close>

lemma all_ones_mask: "ALL_ONES = mask 32"
  by (simp add: ALL_ONES_def mask_eq_exp_minus_1)

lemma ip_int_from_prefix_eq:
  "p \<le> 32 \<Longrightarrow> ip_int_from_prefix p = mask 32 AND NOT (mask (32 - p))"
  unfolding ip_int_from_prefix_def all_ones_mask
  by (rule bit_eqI) (auto simp add: bit_simps)

lemma and_not_mask_int: "(x::int) AND NOT (mask k) = x - x mod 2 ^ k"
proof -
  have "x AND NOT (mask k) = push_bit k (drop_bit k x)"
    by (rule bit_eqI) (auto simp add: bit_simps)
  also have "\<dots> = x - take_bit k x"
    using bits_ident [of k x] by simp
  finally show ?thesis
    by (simp add: take_bit_eq_mod)
qed

lemma and_netmask:
  fixes x :: int
  assumes "0 \<le> x" "x \<le> ALL_ONES" "p \<le> 32"
  shows "x AND ip_int_from_prefix p = x - x mod 2 ^ (32 - p)"
proof -
  have tb: "take_bit 32 x = x"
    using assms by (simp add: take_bit_int_eq_self ALL_ONES_def)
  have "x AND ip_int_from_prefix p = take_bit 32 x AND NOT (mask (32 - p))"
    using assms(3) by (simp add: ip_int_from_prefix_eq take_bit_eq_mask and.assoc)
  also have "\<dots> = x AND NOT (mask (32 - p))"
    by (simp only: tb)
  finally show ?thesis
    by (simp only: and_not_mask_int)
qed

lemma hostmask_eq: "hostmask n = 2 ^ host_bits n - 1"
proof -
  have "hostmask n = (mask 32 XOR mask (32 - prefixlen n)) XOR mask 32"
    by (simp only: hostmask_def netmask_def ip_int_from_prefix_def all_ones_mask drop_bit_mask_eq)
  also have "\<dots> = mask (32 - prefixlen n)"
    by (simp add: xor.commute xor.left_commute del: mask_numeral)
  finally show ?thesis
    by (simp only: mask_eq_exp_minus_1 host_bits_def)
qed

lemma valid_network_aligned:
  assumes "valid_network n"
  shows "network_address n mod 2 ^ host_bits n = 0"
proof -
  have "network_address n AND netmask n =
        network_address n - network_address n mod 2 ^ (32 - prefixlen n)"
    unfolding netmask_def using assms
    by (intro and_netmask) (simp_all add: valid_network_def max_prefixlen_def)
  then show ?thesis
    using assms by (simp add: valid_network_def host_bits_def)
qed

lemma broadcast_address_eq:
  assumes "valid_network n"
  shows "broadcast_address n = network_address n + 2 ^ host_bits n - 1"
proof -
  have "network_address n AND mask (host_bits n) = 0"
    using valid_network_aligned [OF assms]
    by (simp add: take_bit_eq_mask [symmetric] take_bit_eq_mod)
  then have "network_address n + mask (host_bits n) = network_address n OR mask (host_bits n)"
    by (rule disjunctive_add_eq_or)
  then show ?thesis
    by (simp add: broadcast_address_def hostmask_eq mask_eq_exp_minus_1)
qed

lemma aligned_block_iff:
  fixes x N :: int
  assumes "N mod 2 ^ k = 0"
  shows "x - x mod 2 ^ k = N \<longleftrightarrow> N \<le> x \<and> x \<le> N + 2 ^ k - 1"
proof
  assume "x - x mod 2 ^ k = N"
  then have "x = N + x mod 2 ^ k" by simp
  moreover have "0 \<le> x mod 2 ^ k" "x mod (2 ^ k) < 2 ^ k" by simp_all
  ultimately show "N \<le> x \<and> x \<le> N + 2 ^ k - 1" by linarith
next
  assume b: "N \<le> x \<and> x \<le> N + 2 ^ k - 1"
  have "x mod 2 ^ k = (x - N) mod 2 ^ k"
    using assms by (metis mod_diff_right_eq diff_zero mod_mod_trivial)
  also have "\<dots> = x - N"
    using b by (intro mod_pos_pos_trivial) simp_all
  finally show "x - x mod 2 ^ k = N" by simp
qed

lemma contains_addr_iff_range:
  assumes "valid_network n" "0 \<le> x" "x \<le> ALL_ONES"
  shows "contains_addr n x \<longleftrightarrow> network_address n \<le> x \<and> x \<le> broadcast_address n"
proof -
  have "x AND netmask n = x - x mod 2 ^ host_bits n"
    unfolding netmask_def host_bits_def using assms
    by (intro and_netmask) (simp_all add: valid_network_def max_prefixlen_def)
  then show ?thesis
    using aligned_block_iff [OF valid_network_aligned [OF assms(1)], of x]
    by (simp add: contains_addr_def broadcast_address_eq [OF assms(1)])
qed

lemma network_le_broadcast:
  "valid_network n \<Longrightarrow> network_address n \<le> broadcast_address n"
  by (simp add: broadcast_address_eq)

lemma broadcast_nonneg:
  "valid_network n \<Longrightarrow> 0 \<le> broadcast_address n"
  using network_le_broadcast [of n] by (simp add: valid_network_def)

lemma broadcast_le_all_ones:
  assumes "valid_network n"
  shows "broadcast_address n \<le> ALL_ONES"
proof -
  have "network_address n < 2 ^ 32"
    using assms by (simp add: valid_network_def ALL_ONES_def)
  moreover have "hostmask n < 2 ^ 32"
  proof -
    have "(2::int) ^ host_bits n \<le> 2 ^ 32"
      by (rule power_increasing) (simp_all add: host_bits_def)
    then show ?thesis by (simp add: hostmask_eq)
  qed
  moreover have "0 \<le> network_address n"
    using assms by (simp add: valid_network_def)
  ultimately have "network_address n OR hostmask n < 2 ^ 32"
    by (intro OR_upper) simp_all
  then show ?thesis
    by (simp add: broadcast_address_def ALL_ONES_def)
qed

lemma addresses_eq_range:
  assumes "valid_network n"
  shows "addresses n = {network_address n .. broadcast_address n}"
proof -
  have "0 \<le> network_address n"
    using assms by (simp add: valid_network_def)
  then show ?thesis
    using contains_addr_iff_range [OF assms] broadcast_le_all_ones [OF assms]
    by (auto simp add: addresses_def)
qed

lemma host_bits_eq_imp_prefixlen_eq:
  assumes "valid_network a" "valid_network b" "host_bits a = host_bits b"
  shows "prefixlen a = prefixlen b"
  using assms unfolding valid_network_def host_bits_def max_prefixlen_def by linarith

lemma same_range_imp_eq:
  assumes "valid_network a" "valid_network b"
    and "network_address a = network_address b"
    and "broadcast_address a = broadcast_address b"
  shows "a = b"
proof -
  have "(2::int) ^ host_bits a = 2 ^ host_bits b"
    using assms by (simp add: broadcast_address_eq)
  then have "host_bits a = host_bits b"
    by simp
  then have "prefixlen a = prefixlen b"
    by (rule host_bits_eq_imp_prefixlen_eq [OF assms(1,2)])
  then show ?thesis
    using assms(3) by simp
qed

lemma net_eq_iff:
  assumes "valid_network a" "valid_network b"
  shows "net_eq a b \<longleftrightarrow> a = b"
proof
  assume e: "net_eq a b"
  then have "hostmask a = hostmask b"
    by (simp add: net_eq_def hostmask_def)
  then have "broadcast_address a = broadcast_address b"
    using e by (simp add: broadcast_address_def net_eq_def)
  then show "a = b"
    using assms e by (intro same_range_imp_eq) (simp_all add: net_eq_def)
next
  assume "a = b"
  then show "net_eq a b" by (simp add: net_eq_def)
qed

lemma supernet_of_iff_subset:
  assumes "valid_network a" "valid_network b"
  shows "supernet_of a b \<longleftrightarrow> addresses b \<subseteq> addresses a"
  using network_le_broadcast [OF assms(2)]
  by (auto simp add: supernet_of_def is_subnet_of_def addresses_eq_range assms)

lemma subnet_of_iff_subset:
  assumes "valid_network a" "valid_network b"
  shows "subnet_of a b \<longleftrightarrow> addresses a \<subseteq> addresses b"
  using network_le_broadcast [OF assms(1)]
  by (auto simp add: subnet_of_def is_subnet_of_def addresses_eq_range assms)

lemma overlaps_iff_intersect:
  assumes "valid_network a" "valid_network b"
  shows "overlaps a b \<longleftrightarrow> addresses a \<inter> addresses b \<noteq> {}"
proof -
  have ra: "0 \<le> network_address a" "network_address a \<le> ALL_ONES"
       "0 \<le> broadcast_address a" "broadcast_address a \<le> ALL_ONES"
    using assms(1) broadcast_nonneg broadcast_le_all_ones by (simp_all add: valid_network_def)
  have rb: "0 \<le> network_address b" "network_address b \<le> ALL_ONES"
       "0 \<le> broadcast_address b" "broadcast_address b \<le> ALL_ONES"
    using assms(2) broadcast_nonneg broadcast_le_all_ones by (simp_all add: valid_network_def)
  have "overlaps a b \<longleftrightarrow>
        (network_address b \<le> network_address a \<and> network_address a \<le> broadcast_address b) \<or>
        (network_address b \<le> broadcast_address a \<and> broadcast_address a \<le> broadcast_address b) \<or>
        (network_address a \<le> network_address b \<and> network_address b \<le> broadcast_address a) \<or>
        (network_address a \<le> broadcast_address b \<and> broadcast_address b \<le> broadcast_address a)"
    by (simp add: overlaps_def contains_addr_iff_range assms ra rb)
  also have "\<dots> \<longleftrightarrow> max (network_address a) (network_address b)
                    \<le> min (broadcast_address a) (broadcast_address b)"
    using network_le_broadcast [OF assms(1)] network_le_broadcast [OF assms(2)]
    by linarith
  also have "\<dots> \<longleftrightarrow> addresses a \<inter> addresses b \<noteq> {}"
    by (auto simp add: addresses_eq_range assms Int_atLeastAtMost)
  finally show ?thesis .
qed

section \<open>What the parser returns\<close>

lemma int_of_digits_foldl_nonneg:
  "list_all is_decimal_char s \<Longrightarrow> 0 \<le> acc \<Longrightarrow>
   0 \<le> foldl (\<lambda>acc c. acc * 10 + (int (ord c) - 48)) acc s"
  by (induction s arbitrary: acc) (simp_all add: is_decimal_char_def)

lemma parse_octet_range:
  assumes "parse_octet s = Some b"
  shows "0 \<le> b \<and> b \<le> 255"
proof -
  have "isascii_isdigit s" and b: "b = int_of_digits s" and "int_of_digits s \<le> 255"
    using assms by (auto simp add: parse_octet_def split: if_splits)
  then have "0 \<le> int_of_digits s"
    unfolding int_of_digits_def isascii_isdigit_def
    by (intro int_of_digits_foldl_nonneg) simp_all
  then show ?thesis
    using b \<open>int_of_digits s \<le> 255\<close> by simp
qed

lemma parse_octets_range:
  "parse_octets ss = Some bs \<Longrightarrow> length bs = length ss \<and> list_all (\<lambda>b. 0 \<le> b \<and> b \<le> 255) bs"
proof (induction ss arbitrary: bs)
  case Nil
  then show ?case by simp
next
  case (Cons s ss)
  then show ?case
    by (auto split: option.splits dest: parse_octet_range)
qed

lemma length_four_conv:
  "length bs = 4 \<longleftrightarrow> (\<exists>b1 b2 b3 b4. bs = [b1, b2, b3, b4])"
  by (auto simp add: numeral_eq_Suc length_Suc_conv)

lemma ip_int_from_string_range:
  assumes "ip_int_from_string s = Some ip"
  shows "0 \<le> ip \<and> ip \<le> ALL_ONES"
proof -
  obtain bs where p: "parse_octets (split CHR ''.'' s) = Some bs"
    and l: "length (split CHR ''.'' s) = 4" and ip: "ip = from_bytes_big bs"
    using assms by (auto simp add: ip_int_from_string_def Let_def split: if_splits option.splits)
  from parse_octets_range [OF p] l have "length bs = 4"
    and a: "list_all (\<lambda>b. 0 \<le> b \<and> b \<le> 255) bs"
    by simp_all
  then obtain b1 b2 b3 b4 where bs: "bs = [b1, b2, b3, b4]"
    by (auto simp add: length_four_conv)
  show ?thesis
    using a by (simp add: ip bs from_bytes_big_def ALL_ONES_def)
qed

lemma IPv4Address_range:
  "IPv4Address s = Inr ip \<Longrightarrow> 0 \<le> ip \<and> ip \<le> ALL_ONES"
  by (auto simp add: IPv4Address_def split: if_splits option.splits dest: ip_int_from_string_range)

lemma prefix_from_ip_int_le: "prefix_from_ip_int x = Some p \<Longrightarrow> p \<le> 32"
  by (auto simp add: prefix_from_ip_int_def Let_def max_prefixlen_def split: if_splits)

lemma make_netmask_le: "make_netmask s = Inr p \<Longrightarrow> p \<le> 32"
  by (auto simp add: make_netmask_def prefix_from_prefix_string_def prefix_from_ip_string_def
        max_prefixlen_def
      split: option.splits if_splits dest: prefix_from_ip_int_le)

lemma masked_network_valid:
  assumes "0 \<le> x" "x \<le> ALL_ONES" "p \<le> 32"
  shows "valid_network \<lparr>network_address = x AND ip_int_from_prefix p, prefixlen = p\<rparr>"
proof -
  have "0 \<le> x AND ip_int_from_prefix p"
    using assms(1) by simp
  moreover have "x AND ip_int_from_prefix p \<le> x"
    using assms(1) by (rule AND_upper1)
  moreover have "(x AND ip_int_from_prefix p) AND ip_int_from_prefix p = x AND ip_int_from_prefix p"
    by (simp add: and.assoc)
  ultimately show ?thesis
    using assms by (simp add: valid_network_def netmask_def max_prefixlen_def)
qed

lemma IPv4Network_nonstrict_valid:
  assumes "IPv4Network_nonstrict s = Inr n"
  shows "valid_network n"
proof -
  obtain x p where x: "0 \<le> x" "x \<le> ALL_ONES" and p: "p \<le> 32"
    and n: "n = \<lparr>network_address = x AND ip_int_from_prefix p, prefixlen = p\<rparr>"
    using assms
    by (auto simp add: IPv4Network_nonstrict_def Let_def max_prefixlen_def
          split: if_splits sum.splits dest: IPv4Address_range make_netmask_le)
  show ?thesis
    unfolding n using x p by (rule masked_network_valid)
qed

section \<open>The counters of a run\<close>

lemmas append_defs =
  append_exact_def append_contains_def append_contained_def append_overlap_def
  append_host_in_subnet_def

lemma classify_address_space_counters:
  "counters (classify_address_space target n vnet_name rg st) = counters st"
  by (simp add: classify_address_space_def Let_def append_defs counters_def)

lemma classify_subnet_counters:
  "counters (classify_subnet target sname n vnet_name rg st) = counters st"
  by (simp add: classify_subnet_def Let_def append_defs counters_def)

lemma analyze_address_prefix_counters:
  assumes "analyze_address_prefix target vnet_name rg prefix st = Inr st'"
  shows "counters st' = counters st"
proof (cases "IPv4Network_nonstrict prefix")
  case (Inl e)
  with assms show ?thesis
    by (cases e) (auto simp add: analyze_address_prefix_def counters_def)
next
  case (Inr n)
  with assms show ?thesis
    by (auto simp add: analyze_address_prefix_def classify_address_space_counters)
qed

lemma analyze_address_prefixes_counters:
  "analyze_address_prefixes target vnet_name rg prefixes st = Inr st' \<Longrightarrow>
   counters st' = counters st"
proof (induction prefixes arbitrary: st)
  case Nil
  then show ?case by simp
next
  case (Cons prefix rest)
  then obtain st1 where s1: "analyze_address_prefix target vnet_name rg prefix st = Inr st1"
    and r: "analyze_address_prefixes target vnet_name rg rest st1 = Inr st'"
    by (auto split: sum.splits)
  show ?case
    using Cons.IH [OF r] analyze_address_prefix_counters [OF s1] by simp
qed

lemma analyze_subnet_counters:
  assumes "analyze_subnet target sn vnet_name rg st = Inr st'"
  shows "counters st' = counters st"
proof (cases "IPv4Network_nonstrict (address_prefix sn)")
  case (Inl e)
  with assms show ?thesis
    by (cases e) (auto simp add: analyze_subnet_def counters_def)
next
  case (Inr n)
  with assms show ?thesis
    by (auto simp add: analyze_subnet_def classify_subnet_counters split: if_splits)
       (simp add: counters_def append_defs)
qed

lemma analyze_subnets_counters:
  "analyze_subnets target vnet_name rg sns st = Inr st' \<Longrightarrow>
   counters st' = (fst (counters st), snd (counters st) + length sns)"
proof (induction sns arbitrary: st)
  case Nil
  then show ?case by simp
next
  case (Cons sn rest)
  then obtain st1 where s1: "analyze_subnet target sn vnet_name rg st = Inr st1"
    and r: "analyze_subnets target vnet_name rg rest
              ((fst st1)\<lparr>total_subnets_checked := total_subnets_checked (fst st1) + 1\<rparr>, snd st1)
            = Inr st'"
    by (auto split: sum.splits)
  show ?case
    using Cons.IH [OF r] analyze_subnet_counters [OF s1] by (simp add: counters_def)
qed

lemma analyze_vnet_counters:
  assumes "analyze_vnet target vnet st = Inr st'"
  shows "counters st' = (fst (counters st), snd (counters st) + length (subnets vnet))"
proof -
  obtain st1 where
    p: "analyze_address_prefixes target (name vnet) (resource_group vnet) (address_prefixes vnet)
          (fst st, snd st @ [CheckingVNet (name vnet) (resource_group vnet)]) = Inr st1"
    and s: "analyze_subnets target (name vnet) (resource_group vnet) (subnets vnet) st1 = Inr st'"
    using assms by (auto simp add: analyze_vnet_def split: sum.splits)
  show ?thesis
    using analyze_address_prefixes_counters [OF p] analyze_subnets_counters [OF s]
    by (simp add: counters_def)
qed

lemma analyze_vnets_counters:
  "analyze_vnets target vnets st = Inr st' \<Longrightarrow>
   counters st' =
     (fst (counters st), snd (counters st) + sum_list (map (\<lambda>v. length (subnets v)) vnets))"
proof (induction vnets arbitrary: st)
  case Nil
  then show ?case by simp
next
  case (Cons vnet rest)
  then obtain st1 where s1: "analyze_vnet target vnet st = Inr st1"
    and r: "analyze_vnets target rest st1 = Inr st'"
    by (auto split: sum.splits)
  show ?case
    using Cons.IH [OF r] analyze_vnet_counters [OF s1] by simp
qed

section \<open>Malformed prefixes\<close>

lemma analyze_address_prefix_bad_address:
  "IPv4Network_nonstrict prefix = Inl AddressValueError \<Longrightarrow>
   analyze_address_prefix target vnet_name rg prefix st =
     Inr (fst st, snd st @ [InvalidVNetPrefix prefix])"
  by (simp add: analyze_address_prefix_def)

lemma analyze_subnet_bad_address:
  "IPv4Network_nonstrict (address_prefix sn) = Inl AddressValueError \<Longrightarrow>
   analyze_subnet target sn vnet_name rg st =
     Inr (fst st, snd st @ [InvalidSubnetPrefix (address_prefix sn)])"
  by (simp add: analyze_subnet_def)

lemma analyze_address_prefix_bad_mask:
  "IPv4Network_nonstrict prefix = Inl NetmaskValueError \<Longrightarrow>
   analyze_address_prefix target vnet_name rg prefix st = Inl NetmaskValueError"
  by (simp add: analyze_address_prefix_def)

lemma analyze_subnet_bad_mask:
  "IPv4Network_nonstrict (address_prefix sn) = Inl NetmaskValueError \<Longrightarrow>
   analyze_subnet target sn vnet_name rg st = Inl NetmaskValueError"
  by (simp add: analyze_subnet_def)

lemma analyze_address_prefix_returns:
  assumes "no_netmask_error prefix"
  shows "\<exists>st'. analyze_address_prefix target vnet_name rg prefix st = Inr st'"
proof (cases "IPv4Network_nonstrict prefix")
  case (Inl e)
  with assms show ?thesis
    by (cases e) (simp_all add: analyze_address_prefix_def no_netmask_error_def)
next
  case (Inr n)
  then show ?thesis
    by (simp add: analyze_address_prefix_def)
qed

lemma analyze_subnet_returns:
  assumes "no_netmask_error (address_prefix sn)"
  shows "\<exists>st'. analyze_subnet target sn vnet_name rg st = Inr st'"
proof (cases "IPv4Network_nonstrict (address_prefix sn)")
  case (Inl e)
  with assms show ?thesis
    by (cases e) (simp_all add: analyze_subnet_def no_netmask_error_def)
next
  case (Inr n)
  then show ?thesis
    by (simp add: analyze_subnet_def)
qed

lemma analyze_address_prefixes_returns:
  "list_all no_netmask_error prefixes \<Longrightarrow>
   \<exists>st'. analyze_address_prefixes target vnet_name rg prefixes st = Inr st'"
proof (induction prefixes arbitrary: st)
  case Nil
  then show ?case by simp
next
  case (Cons prefix rest)
  then obtain st1 where "analyze_address_prefix target vnet_name rg prefix st = Inr st1"
    using analyze_address_prefix_returns [of prefix target vnet_name rg st] by auto
  with Cons show ?case by simp
qed

lemma analyze_subnets_returns:
  "list_all (\<lambda>sn. no_netmask_error (address_prefix sn)) sns \<Longrightarrow>
   \<exists>st'. analyze_subnets target vnet_name rg sns st = Inr st'"
proof (induction sns arbitrary: st)
  case Nil
  then show ?case by simp
next
  case (Cons sn rest)
  then obtain st1 where "analyze_subnet target sn vnet_name rg st = Inr st1"
    using analyze_subnet_returns [of sn target vnet_name rg st] by auto
  with Cons show ?case by simp
qed

lemma analyze_vnet_returns:
  assumes "vnet_no_netmask_error vnet"
  shows "\<exists>st'. analyze_vnet target vnet st = Inr st'"
proof -
  obtain st1 where
    "analyze_address_prefixes target (name vnet) (resource_group vnet) (address_prefixes vnet)
       (fst st, snd st @ [CheckingVNet (name vnet) (resource_group vnet)]) = Inr st1"
    using assms analyze_address_prefixes_returns unfolding vnet_no_netmask_error_def by blast
  moreover obtain st2 where
    "analyze_subnets target (name vnet) (resource_group vnet) (subnets vnet) st1 = Inr st2"
    using assms analyze_subnets_returns unfolding vnet_no_netmask_error_def by blast
  ultimately show ?thesis
    by (simp add: analyze_vnet_def)
qed

lemma analyze_vnets_returns:
  "list_all vnet_no_netmask_error vnets \<Longrightarrow> \<exists>st'. analyze_vnets target vnets st = Inr st'"
proof (induction vnets arbitrary: st)
  case Nil
  then show ?case by simp
next
  case (Cons vnet rest)
  then obtain st1 where "analyze_vnet target vnet st = Inr st1"
    using analyze_vnet_returns [of vnet target st] by auto
  with Cons show ?case by simp
qed

lemma analyze_ip_usage_returns:
  "list_all vnet_no_netmask_error vnets \<Longrightarrow> \<exists>r out. analyze_ip_usage target vnets = Inr (r, out)"
  using analyze_vnets_returns [of vnets target] by (simp add: analyze_ip_usage_def)

section \<open>A single host against a network\<close>

lemma is_subnet_overlap_eq_sets:
  assumes "valid_network a" and "valid_network b"
  shows "is_subnet_overlap a b =
           (if a = b then Exact
            else if addresses b \<subseteq> addresses a then Contains
            else if addresses a \<subseteq> addresses b then Contained
            else if addresses a \<inter> addresses b \<noteq> {} then Overlap
            else NoRel)"
  unfolding is_subnet_overlap_def
  by (simp only: net_eq_iff [OF assms] supernet_of_iff_subset [OF assms]
        subnet_of_iff_subset [OF assms] overlaps_iff_intersect [OF assms])

lemma is_subnet_overlap_not_host: "is_subnet_overlap a b \<noteq> HostInSubnet"
  by (simp add: is_subnet_overlap_def)

lemma network_in_addresses:
  "valid_network n \<Longrightarrow> network_address n \<in> addresses n"
  using network_le_broadcast [of n] by (simp add: addresses_eq_range)

lemma addresses_host:
  assumes "valid_network t" "prefixlen t = 32"
  shows "addresses t = {network_address t}"
  using assms by (simp add: addresses_eq_range broadcast_address_eq host_bits_def)

lemma check_host_iff_member:
  assumes "valid_network t" "valid_network n"
  shows "check_host_in_network t n \<longleftrightarrow> prefixlen t = 32 \<and> network_address t \<in> addresses n"
  using assms by (auto simp add: check_host_in_network_def addresses_def valid_network_def)

lemma host_inside_not_none:
  assumes "valid_network t" "valid_network n" "check_host_in_network t n"
  shows "is_subnet_overlap t n \<noteq> NoRel"
proof -
  have "addresses t \<subseteq> addresses n"
    using assms check_host_iff_member [OF assms(1,2)] addresses_host [OF assms(1)] by simp
  then show ?thesis
    by (simp add: is_subnet_overlap_eq_sets [OF assms(1,2)])
qed

lemma host_outside_none:
  assumes "valid_network t" "valid_network n" "prefixlen t = 32"
    and "\<not> check_host_in_network t n"
  shows "is_subnet_overlap t n = NoRel"
proof -
  have out: "network_address t \<notin> addresses n"
    using assms check_host_iff_member [OF assms(1,2)] by simp
  have t: "addresses t = {network_address t}"
    using assms(1,3) by (rule addresses_host)
  have "t \<noteq> n"
    using out network_in_addresses [OF assms(1)] by auto
  moreover have "\<not> addresses n \<subseteq> addresses t"
    using out network_in_addresses [OF assms(2)] t by auto
  moreover have "\<not> addresses t \<subseteq> addresses n"
    using out t by simp
  moreover have "addresses t \<inter> addresses n = {}"
    using out t by simp
  ultimately show ?thesis
    by (simp add: is_subnet_overlap_eq_sets [OF assms(1,2)])
qed

section \<open>Invariants of a run\<close>

text \<open>
  A property of the results that every loop body and the subnet counter preserve holds
  of the report, if it held at the start.
\<close>

lemma analyze_address_prefixes_invariant:
  assumes step: "\<And>prefix st st'. P (fst st) \<Longrightarrow>
      analyze_address_prefix target vnet_name rg prefix st = Inr st' \<Longrightarrow> P (fst st')"
  shows "P (fst st) \<Longrightarrow> analyze_address_prefixes target vnet_name rg prefixes st = Inr st' \<Longrightarrow>
         P (fst st')"
proof (induction prefixes arbitrary: st)
  case Nil
  then show ?case by simp
next
  case (Cons prefix rest)
  from Cons.prems(2) obtain st1 where
    s1: "analyze_address_prefix target vnet_name rg prefix st = Inr st1"
    and r: "analyze_address_prefixes target vnet_name rg rest st1 = Inr st'"
    by (auto split: sum.splits)
  have "P (fst st1)"
    using Cons.prems(1) s1 by (rule step)
  then show ?case
    using r by (rule Cons.IH)
qed

lemma analyze_subnets_invariant:
  assumes step: "\<And>sn st st'. P (fst st) \<Longrightarrow>
      analyze_subnet target sn vnet_name rg st = Inr st' \<Longrightarrow> P (fst st')"
    and count: "\<And>r k. P r \<Longrightarrow> P (r\<lparr>total_subnets_checked := k\<rparr>)"
  shows "P (fst st) \<Longrightarrow> analyze_subnets target vnet_name rg sns st = Inr st' \<Longrightarrow> P (fst st')"
proof (induction sns arbitrary: st)
  case Nil
  then show ?case by simp
next
  case (Cons sn rest)
  from Cons.prems(2) obtain st1 where
    s1: "analyze_subnet target sn vnet_name rg st = Inr st1"
    and r: "analyze_subnets target vnet_name rg rest
              ((fst st1)\<lparr>total_subnets_checked := total_subnets_checked (fst st1) + 1\<rparr>, snd st1)
            = Inr st'"
    by (auto split: sum.splits)
  have "P (fst st1)"
    using Cons.prems(1) s1 by (rule step)
  then have "P (fst ((fst st1)\<lparr>total_subnets_checked := total_subnets_checked (fst st1) + 1\<rparr>,
                    snd st1))"
    by (simp add: count)
  then show ?case
    using r by (rule Cons.IH)
qed

lemma analyze_vnets_invariant:
  assumes pstep: "\<And>vnet_name rg prefix st st'. P (fst st) \<Longrightarrow>
      analyze_address_prefix target vnet_name rg prefix st = Inr st' \<Longrightarrow> P (fst st')"
    and sstep: "\<And>vnet_name rg sn st st'. P (fst st) \<Longrightarrow>
      analyze_subnet target sn vnet_name rg st = Inr st' \<Longrightarrow> P (fst st')"
    and count: "\<And>r k. P r \<Longrightarrow> P (r\<lparr>total_subnets_checked := k\<rparr>)"
  shows "P (fst st) \<Longrightarrow> analyze_vnets target vnets st = Inr st' \<Longrightarrow> P (fst st')"
proof (induction vnets arbitrary: st)
  case Nil
  then show ?case by simp
next
  case (Cons vnet rest)
  from Cons.prems(2) obtain st1 st2 where
    p: "analyze_address_prefixes target (name vnet) (resource_group vnet) (address_prefixes vnet)
          (fst st, snd st @ [CheckingVNet (name vnet) (resource_group vnet)]) = Inr st1"
    and s: "analyze_subnets target (name vnet) (resource_group vnet) (subnets vnet) st1 = Inr st2"
    and r: "analyze_vnets target rest st2 = Inr st'"
    by (auto simp add: analyze_vnet_def split: sum.splits)
  have "P (fst st1)"
  proof (rule analyze_address_prefixes_invariant [where P = P, OF _ _ p])
    show "P (fst st0) \<Longrightarrow>
          analyze_address_prefix target (name vnet) (resource_group vnet) prefix st0 = Inr st0' \<Longrightarrow>
          P (fst st0')" for prefix st0 st0'
      by (rule pstep)
    show "P (fst (fst st, snd st @ [CheckingVNet (name vnet) (resource_group vnet)]))"
      using Cons.prems(1) by simp
  qed
  have "P (fst st2)"
  proof (rule analyze_subnets_invariant [where P = P, OF _ _ _ s])
    show "P (fst st0) \<Longrightarrow>
          analyze_subnet target sn (name vnet) (resource_group vnet) st0 = Inr st0' \<Longrightarrow>
          P (fst st0')" for sn st0 st0'
      by (rule sstep)
    show "P r0 \<Longrightarrow> P (r0\<lparr>total_subnets_checked := k\<rparr>)" for r0 k
      by (rule count)
    show "P (fst st1)"
      by (rule \<open>P (fst st1)\<close>)
  qed
  then show ?case
    using r by (rule Cons.IH)
qed

lemma analyze_ip_usage_invariant:
  assumes pstep: "\<And>vnet_name rg prefix st st'. P (fst st) \<Longrightarrow>
      analyze_address_prefix target vnet_name rg prefix st = Inr st' \<Longrightarrow> P (fst st')"
    and sstep: "\<And>vnet_name rg sn st st'. P (fst st) \<Longrightarrow>
      analyze_subnet target sn vnet_name rg st = Inr st' \<Longrightarrow> P (fst st')"
    and count: "\<And>r k. P r \<Longrightarrow> P (r\<lparr>total_subnets_checked := k\<rparr>)"
    and init: "P (initial_results target vnets)"
    and run: "analyze_ip_usage target vnets = Inr (r, out)"
  shows "P r"
proof -
  have "P (fst (r, out))"
  proof (rule analyze_vnets_invariant [where P = P, OF _ _ _ _ run [unfolded analyze_ip_usage_def]])
    show "P (fst st0) \<Longrightarrow> analyze_address_prefix target vnet_name rg prefix st0 = Inr st0' \<Longrightarrow>
          P (fst st0')" for vnet_name rg prefix st0 st0'
      by (rule pstep)
    show "P (fst st0) \<Longrightarrow> analyze_subnet target sn vnet_name rg st0 = Inr st0' \<Longrightarrow>
          P (fst st0')" for vnet_name rg sn st0 st0'
      by (rule sstep)
    show "P r0 \<Longrightarrow> P (r0\<lparr>total_subnets_checked := k\<rparr>)" for r0 k
      by (rule count)
    show "P (fst (initial_results target vnets,
                 [AnalyzingNetwork (str_network target), CheckingVNets (length vnets)]))"
      using init by simp
  qed
  then show ?thesis by simp
qed

section \<open>What one prefix adds to the buckets\<close>

lemma classify_address_space_none:
  "is_subnet_overlap target n = NoRel \<Longrightarrow> classify_address_space target n vnet_name rg st = st"
  by (simp add: classify_address_space_def)

lemma classify_subnet_none:
  "is_subnet_overlap target n = NoRel \<Longrightarrow> classify_subnet target sname n vnet_name rg st = st"
  by (simp add: classify_subnet_def)

lemma classify_address_space_total:
  "total_matches (fst (classify_address_space target n vnet_name rg st)) =
   total_matches (fst st) + (if is_subnet_overlap target n = NoRel then 0 else 1)"
  using is_subnet_overlap_not_host [of target n]
  by (cases "is_subnet_overlap target n")
     (simp_all add: classify_address_space_def Let_def total_matches_def items_def append_defs)

lemma classify_subnet_total:
  "total_matches (fst (classify_subnet target sname n vnet_name rg st)) =
   total_matches (fst st) + (if is_subnet_overlap target n = NoRel then 0 else 1)"
  using is_subnet_overlap_not_host [of target n]
  by (cases "is_subnet_overlap target n")
     (simp_all add: classify_subnet_def Let_def total_matches_def items_def append_defs)

lemma append_host_in_subnet_total:
  "total_matches (append_host_in_subnet m r) = total_matches r + 1"
  by (simp add: total_matches_def items_def append_defs)

lemma classify_address_space_labelled:
  "buckets_labelled (fst st) \<Longrightarrow>
   buckets_labelled (fst (classify_address_space target n vnet_name rg st))"
  by (simp add: classify_address_space_def Let_def buckets_labelled_def items_def append_defs)

lemma classify_subnet_labelled:
  "buckets_labelled (fst st) \<Longrightarrow>
   buckets_labelled (fst (classify_subnet target sname n vnet_name rg st))"
  by (simp add: classify_subnet_def Let_def buckets_labelled_def items_def append_defs)

lemma analyze_address_prefix_labelled:
  assumes "buckets_labelled (fst st)"
    and "analyze_address_prefix target vnet_name rg prefix st = Inr st'"
  shows "buckets_labelled (fst st')"
proof (cases "IPv4Network_nonstrict prefix")
  case (Inl e)
  with assms show ?thesis
    by (cases e) (auto simp add: analyze_address_prefix_def)
next
  case (Inr n)
  with assms show ?thesis
    by (auto simp add: analyze_address_prefix_def classify_address_space_labelled)
qed

lemma analyze_subnet_labelled:
  assumes "buckets_labelled (fst st)"
    and "analyze_subnet target sn vnet_name rg st = Inr st'"
  shows "buckets_labelled (fst st')"
proof (cases "IPv4Network_nonstrict (address_prefix sn)")
  case (Inl e)
  with assms show ?thesis
    by (cases e) (auto simp add: analyze_subnet_def)
next
  case (Inr n)
  show ?thesis
  proof (cases "prefixlen target = 32 \<and> check_host_in_network target n")
    case True
    with assms Inr show ?thesis
      by (auto simp add: analyze_subnet_def buckets_labelled_def items_def append_defs)
  next
    case False
    with assms Inr show ?thesis
      by (auto simp add: analyze_subnet_def classify_subnet_labelled)
  qed
qed

lemma buckets_labelled_counter:
  "buckets_labelled r \<Longrightarrow> buckets_labelled (r\<lparr>total_subnets_checked := k\<rparr>)"
  by (simp add: buckets_labelled_def)

lemma buckets_labelled_initial: "buckets_labelled (initial_results target vnets)"
  by (simp add: buckets_labelled_def initial_results_def items_def)

lemma analyze_ip_usage_labelled:
  assumes "analyze_ip_usage target vnets = Inr (r, out)"
  shows "buckets_labelled r"
  using analyze_address_prefix_labelled analyze_subnet_labelled buckets_labelled_counter
    buckets_labelled_initial assms
  by (rule analyze_ip_usage_invariant [where P = buckets_labelled])

lemma buckets_labelled_unique:
  assumes "buckets_labelled r"
    and "(k, xs) \<in> set (items (matches r))" "(k', ys) \<in> set (items (matches r))"
    and "m \<in> set xs" "m \<in> set ys"
  shows "k = k'"
proof -
  have all: "\<forall>kv\<in>set (items (matches r)). \<forall>m\<in>set (snd kv). m_relationship m = fst kv"
    using assms(1) by (simp add: buckets_labelled_def list_all_iff)
  have "m_relationship m = k"
    using all [rule_format, OF assms(2)] assms(4) by simp
  moreover have "m_relationship m = k'"
    using all [rule_format, OF assms(3)] assms(5) by simp
  ultimately show ?thesis by simp
qed

lemma classify_address_space_only_host:
  "subnets_only_as_host (fst st) \<Longrightarrow>
   subnets_only_as_host (fst (classify_address_space target n vnet_name rg st))"
  by (simp add: classify_address_space_def Let_def subnets_only_as_host_def append_defs)

lemma analyze_address_prefix_only_host:
  assumes "subnets_only_as_host (fst st)"
    and "analyze_address_prefix target vnet_name rg prefix st = Inr st'"
  shows "subnets_only_as_host (fst st')"
proof (cases "IPv4Network_nonstrict prefix")
  case (Inl e)
  with assms show ?thesis
    by (cases e) (auto simp add: analyze_address_prefix_def)
next
  case (Inr n)
  with assms show ?thesis
    by (auto simp add: analyze_address_prefix_def classify_address_space_only_host)
qed

lemma analyze_subnet_host_target:
  assumes "valid_network target" "prefixlen target = 32"
    and "IPv4Network_nonstrict (address_prefix sn) = Inr n"
  shows "analyze_subnet target sn vnet_name rg st =
           Inr (if check_host_in_network target n
                then (append_host_in_subnet (host_match sn n vnet_name rg) (fst st),
                      snd st @ [HostFound (sn_name sn) (str_network n)])
                else st)"
proof (cases "check_host_in_network target n")
  case True
  then show ?thesis
    using assms by (simp add: analyze_subnet_def host_match_def)
next
  case False
  have "valid_network n"
    using assms(3) by (rule IPv4Network_nonstrict_valid)
  with assms False have "is_subnet_overlap target n = NoRel"
    by (intro host_outside_none)
  then show ?thesis
    using assms False by (simp add: analyze_subnet_def classify_subnet_none)
qed

lemma analyze_subnet_only_host:
  assumes "valid_network target" "prefixlen target = 32"
    and "subnets_only_as_host (fst st)"
    and "analyze_subnet target sn vnet_name rg st = Inr st'"
  shows "subnets_only_as_host (fst st')"
proof (cases "IPv4Network_nonstrict (address_prefix sn)")
  case (Inl e)
  with assms show ?thesis
    by (cases e) (auto simp add: analyze_subnet_def)
next
  case (Inr n)
  show ?thesis
    using assms(3,4) analyze_subnet_host_target [OF assms(1,2) Inr, of vnet_name rg st]
    by (auto simp add: subnets_only_as_host_def append_defs host_match_def split: if_splits)
qed

lemma subnets_only_as_host_counter:
  "subnets_only_as_host r \<Longrightarrow> subnets_only_as_host (r\<lparr>total_subnets_checked := k\<rparr>)"
  by (simp add: subnets_only_as_host_def)

lemma subnets_only_as_host_initial: "subnets_only_as_host (initial_results target vnets)"
  by (simp add: subnets_only_as_host_def initial_results_def)

lemma analyze_ip_usage_only_host:
  assumes "valid_network target" "prefixlen target = 32"
    and "analyze_ip_usage target vnets = Inr (r, out)"
  shows "subnets_only_as_host r"
  using analyze_address_prefix_only_host analyze_subnet_only_host [OF assms(1,2)]
    subnets_only_as_host_counter subnets_only_as_host_initial assms(3)
  by (rule analyze_ip_usage_invariant [where P = subnets_only_as_host])

section \<open>Validation of the input\<close>

lemma split_without_sep: "sep \<notin> set s \<Longrightarrow> split sep s = [s]"
  by (induction s) auto

lemma split_append_sep: "sep \<notin> set s \<Longrightarrow> split sep (s @ sep # t) = s # split sep t"
  by (induction s) auto

lemma set_strip: "set (strip s) \<subseteq> set s"
proof -
  have "set (dropWhile isspace (rev (dropWhile isspace s))) \<subseteq> set (rev (dropWhile isspace s))"
    by (rule set_dropWhileD [THEN subsetI])
  also have "\<dots> \<subseteq> set s"
    using set_dropWhileD [of _ isspace s] by auto
  finally show ?thesis
    by (simp add: strip_def)
qed

lemma make_netmask_32: "make_netmask ''32'' = Inr 32"
  by code_simp

lemma and_full_netmask:
  assumes "0 \<le> ip" "ip \<le> ALL_ONES"
  shows "ip AND ip_int_from_prefix 32 = ip"
  using and_netmask [OF assms, of 32] by simp

lemma IPv4Network_nonstrict_host:
  assumes "CHR ''/'' \<notin> set t"
  shows "IPv4Network_nonstrict (t @ ''/32'') =
           (case IPv4Address t of
              Inl e \<Rightarrow> Inl e
            | Inr ip \<Rightarrow> Inr \<lparr>network_address = ip, prefixlen = 32\<rparr>)"
proof -
  have s: "split CHR ''/'' (t @ ''/32'') = [t, ''32'']"
    using split_append_sep [OF assms, of "''32''"] by simp
  show ?thesis
  proof (cases "IPv4Address t")
    case (Inl e)
    then show ?thesis
      by (simp add: IPv4Network_nonstrict_def s)
  next
    case (Inr ip)
    then have "ip AND ip_int_from_prefix 32 = ip"
      using IPv4Address_range [OF Inr] by (intro and_full_netmask) simp_all
    then show ?thesis
      using Inr by (simp add: IPv4Network_nonstrict_def s make_netmask_32)
  qed
qed

lemma IPv4Address_empty: "IPv4Address [] = Inl AddressValueError"
  by (simp add: IPv4Address_def ip_int_from_string_def)

lemma multicast_network_valid: "valid_network multicast_network"
  by code_simp

lemma multicast_broadcast: "broadcast_address multicast_network = 4026531839"
  using broadcast_address_eq [OF multicast_network_valid]
  by (simp add: host_bits_def multicast_network_def)

lemma addr_is_multicast_iff:
  assumes "0 \<le> ip" "ip \<le> ALL_ONES"
  shows "addr_is_multicast ip \<longleftrightarrow> 3758096384 \<le> ip \<and> ip \<le> 4026531839"
  unfolding addr_is_multicast_def
  using contains_addr_iff_range [OF multicast_network_valid assms]
  by (simp add: multicast_broadcast) (simp add: multicast_network_def)

lemma is_multicast_iff:
  assumes "valid_network n"
  shows "is_multicast n \<longleftrightarrow>
         3758096384 \<le> network_address n \<and> broadcast_address n \<le> 4026531839"
proof -
  have "0 \<le> network_address n" "network_address n \<le> ALL_ONES"
    using assms by (simp_all add: valid_network_def)
  moreover have "0 \<le> broadcast_address n" "broadcast_address n \<le> ALL_ONES"
    using assms broadcast_nonneg broadcast_le_all_ones by simp_all
  ultimately show ?thesis
    using network_le_broadcast [OF assms]
    by (auto simp add: is_multicast_def addr_is_multicast_iff)
qed

lemma host_network_valid:
  assumes "0 \<le> ip" "ip \<le> ALL_ONES"
  shows "valid_network \<lparr>network_address = ip, prefixlen = 32\<rparr>"
  using assms and_full_netmask [OF assms]
  by (simp add: valid_network_def netmask_def max_prefixlen_def)

lemma host_network_broadcast:
  assumes "0 \<le> ip" "ip \<le> ALL_ONES"
  shows "broadcast_address \<lparr>network_address = ip, prefixlen = 32\<rparr> = ip"
  by (simp add: broadcast_address_eq [OF host_network_valid [OF assms]] host_bits_def)

text \<open>The checks of \<open>validate_input\<close> on the network it has parsed.\<close>

lemma validate_input_parsed:
  assumes "IPv4Network_nonstrict (cidr_input ip_input) = Inr network"
  shows "validate_input is_global answer ip_input =
           (if is_multicast network then Inl (UnsupportedAddressClass Multicast)
            else if network_address network \<ge> 4026531840
            then Inl (UnsupportedAddressClass ClassE)
            else if is_global network \<and> lower (strip answer) \<notin> set [''y'', ''yes'']
            then Inl UserCancelled
            else Inr network)"
proof (cases "CHR ''/'' \<in> set (strip ip_input)")
  case True
  then have "strip ip_input \<noteq> []" by auto
  then show ?thesis
    using True assms by (simp add: validate_input_def cidr_input_def)
next
  case False
  then have p: "IPv4Network_nonstrict (strip ip_input @ ''/32'') = Inr network"
    using assms by (simp add: cidr_input_def)
  then obtain ip where ip: "IPv4Address (strip ip_input) = Inr ip"
    using IPv4Network_nonstrict_host [OF False] by (cases "IPv4Address (strip ip_input)") simp_all
  then have "strip ip_input \<noteq> []"
    using IPv4Address_empty by auto
  then show ?thesis
    using False ip p by (simp add: validate_input_def)
qed

lemma validate_input_success:
  assumes "validate_input is_global answer ip_input = Inr network"
  shows "IPv4Network_nonstrict (cidr_input ip_input) = Inr network"
  using assms
  by (auto simp add: validate_input_def cidr_input_def split: if_splits sum.splits)

lemma is_subnet_of_antisym:
  assumes "valid_network a" "valid_network b" "is_subnet_of a b" "is_subnet_of b a"
  shows "a = b"
  using assms by (intro same_range_imp_eq) (simp_all add: is_subnet_of_def)

section \<open>The pairwise classification\<close>

text \<open>
  C1. For valid networks \<open>a\<close> and \<open>b\<close>, \<open>is_subnet_overlap a b\<close> is the result of the
  first check that matches, in the order exact, contains, contained, overlap, none:
  \<open>Exact\<close> if the networks are equal, otherwise \<open>Contains\<close> if every address of \<open>b\<close>
  is an address of \<open>a\<close>, otherwise \<open>Contained\<close> if every address of \<open>a\<close> is an address
  of \<open>b\<close>, otherwise \<open>Overlap\<close> if the two ranges share an address, otherwise
  \<open>NoRel\<close>. Equal networks are never reported as \<open>Contains\<close> or \<open>Contained\<close>.
\<close>

theorem is_subnet_overlap_first_match:
  assumes "valid_network a" and "valid_network b"
  shows "is_subnet_overlap a b =
           (if a = b then Exact
            else if addresses b \<subseteq> addresses a then Contains
            else if addresses a \<subseteq> addresses b then Contained
            else if addresses a \<inter> addresses b \<noteq> {} then Overlap
            else NoRel)
         \<and> (a = b \<longrightarrow> is_subnet_overlap a b \<noteq> Contains \<and> is_subnet_overlap a b \<noteq> Contained)"
proof -
  have "is_subnet_overlap a b =
           (if a = b then Exact
            else if addresses b \<subseteq> addresses a then Contains
            else if addresses a \<subseteq> addresses b then Contained
            else if addresses a \<inter> addresses b \<noteq> {} then Overlap
            else NoRel)"
    unfolding is_subnet_overlap_def
    by (simp only: net_eq_iff [OF assms] supernet_of_iff_subset [OF assms]
          subnet_of_iff_subset [OF assms] overlaps_iff_intersect [OF assms])
  then show ?thesis
    by (cases "a = b") simp_all
qed

theorem is_subnet_overlap_first_match_witness:
  "valid_network \<lparr>network_address = 167772160, prefixlen = 16\<rparr> \<and>
   valid_network \<lparr>network_address = 167772160, prefixlen = 24\<rparr> \<and>
   is_subnet_overlap \<lparr>network_address = 167772160, prefixlen = 16\<rparr>
     \<lparr>network_address = 167772160, prefixlen = 24\<rparr> = Contains \<and>
   addresses \<lparr>network_address = 167772160, prefixlen = 24\<rparr>
     \<subseteq> addresses \<lparr>network_address = 167772160, prefixlen = 16\<rparr>"
proof -
  have a: "valid_network \<lparr>network_address = 167772160, prefixlen = 16\<rparr>"
    by code_simp
  have b: "valid_network \<lparr>network_address = 167772160, prefixlen = 24\<rparr>"
    by code_simp
  have c: "is_subnet_overlap \<lparr>network_address = 167772160, prefixlen = 16\<rparr>
     \<lparr>network_address = 167772160, prefixlen = 24\<rparr> = Contains"
    by code_simp
  show ?thesis
    using a b c is_subnet_overlap_first_match [OF a b]
    by (auto split: if_splits)
qed

text \<open>
  C6. For valid networks \<open>a \<noteq> b\<close>, \<open>is_subnet_overlap a b\<close> is \<open>Contains\<close> exactly
  when \<open>is_subnet_overlap b a\<close> is \<open>Contained\<close>.
\<close>

theorem contains_contained_symmetry:
  assumes "valid_network a" and "valid_network b" and "a \<noteq> b"
  shows "is_subnet_overlap a b = Contains \<longleftrightarrow> is_subnet_overlap b a = Contained"
proof -
  have ne: "\<not> net_eq a b" "\<not> net_eq b a"
    using assms net_eq_iff [of a b] net_eq_iff [of b a] by auto
  have "is_subnet_of b a \<Longrightarrow> \<not> is_subnet_of a b"
    using is_subnet_of_antisym [OF assms(1,2)] assms(3) by blast
  then show ?thesis
    using ne by (auto simp add: is_subnet_overlap_def supernet_of_def subnet_of_def)
qed

theorem contains_contained_symmetry_witness:
  "valid_network \<lparr>network_address = 167772160, prefixlen = 16\<rparr> \<and>
   valid_network \<lparr>network_address = 167772160, prefixlen = 24\<rparr> \<and>
   \<lparr>network_address = 167772160, prefixlen = 16\<rparr> \<noteq> \<lparr>network_address = 167772160, prefixlen = 24\<rparr> \<and>
   is_subnet_overlap \<lparr>network_address = 167772160, prefixlen = 16\<rparr>
     \<lparr>network_address = 167772160, prefixlen = 24\<rparr> = Contains \<and>
   is_subnet_overlap \<lparr>network_address = 167772160, prefixlen = 24\<rparr>
     \<lparr>network_address = 167772160, prefixlen = 16\<rparr> = Contained"
proof -
  have a: "valid_network \<lparr>network_address = 167772160, prefixlen = 16\<rparr>"
    by code_simp
  have b: "valid_network \<lparr>network_address = 167772160, prefixlen = 24\<rparr>"
    by code_simp
  have ne: "\<lparr>network_address = 167772160, prefixlen = 16\<rparr> \<noteq> \<lparr>network_address = (167772160::int), prefixlen = 24::nat\<rparr>"
    by simp
  have c: "is_subnet_overlap \<lparr>network_address = 167772160, prefixlen = 16\<rparr>
     \<lparr>network_address = 167772160, prefixlen = 24\<rparr> = Contains"
    by code_simp
  show ?thesis
    using a b ne c contains_contained_symmetry [OF a b ne] by simp
qed

text \<open>
  C5. \<open>check_host_in_network host subnet\<close> is a total predicate. For valid networks it
  holds exactly when \<open>host\<close> has prefix length 32 and its address lies between the
  network address and the broadcast address of \<open>subnet\<close>; whenever the prefix length
  of \<open>host\<close> is not 32 it is false, whatever the subnet.
\<close>

theorem check_host_in_network_iff:
  "(valid_network host \<and> valid_network subnet \<longrightarrow>
      (check_host_in_network host subnet \<longleftrightarrow>
         prefixlen host = 32 \<and>
         network_address host \<in> {network_address subnet .. broadcast_address subnet}))
   \<and> (prefixlen host \<noteq> 32 \<longrightarrow> \<not> check_host_in_network host subnet)"
proof -
  have "contains_addr subnet (network_address host) \<longleftrightarrow>
        network_address host \<in> {network_address subnet .. broadcast_address subnet}"
    if "valid_network host" "valid_network subnet"
    using that contains_addr_iff_range [of subnet "network_address host"]
    by (simp add: valid_network_def)
  then show ?thesis
    by (auto simp add: check_host_in_network_def)
qed

theorem check_host_in_network_iff_witness:
  "valid_network \<lparr>network_address = 167772165, prefixlen = 32\<rparr> \<and>
   valid_network \<lparr>network_address = 167772160, prefixlen = 24\<rparr> \<and>
   check_host_in_network \<lparr>network_address = 167772165, prefixlen = 32\<rparr>
     \<lparr>network_address = 167772160, prefixlen = 24\<rparr> \<and>
   167772165 \<in> {167772160 .. broadcast_address \<lparr>network_address = 167772160, prefixlen = 24\<rparr>} \<and>
   prefixlen \<lparr>network_address = 167772160, prefixlen = 24\<rparr> \<noteq> 32 \<and>
   \<not> check_host_in_network \<lparr>network_address = 167772160, prefixlen = 24\<rparr>
     \<lparr>network_address = 167772160, prefixlen = 24\<rparr>"
proof -
  have a: "valid_network \<lparr>network_address = 167772165, prefixlen = 32\<rparr>"
    by code_simp
  have b: "valid_network \<lparr>network_address = 167772160, prefixlen = 24\<rparr>"
    by code_simp
  have c: "check_host_in_network \<lparr>network_address = 167772165, prefixlen = 32\<rparr>
     \<lparr>network_address = 167772160, prefixlen = 24\<rparr>"
    by code_simp
  show ?thesis
    using a b c
      check_host_in_network_iff [of "\<lparr>network_address = 167772165, prefixlen = 32\<rparr>"
        "\<lparr>network_address = 167772160, prefixlen = 24\<rparr>"]
      check_host_in_network_iff [of "\<lparr>network_address = 167772160, prefixlen = 24\<rparr>"
        "\<lparr>network_address = 167772160, prefixlen = 24\<rparr>"]
    by simp
qed

section \<open>The counts of a report\<close>

text \<open>
  C9. In every report that \<open>analyze_ip_usage\<close> returns, the count of networks is the
  number of discovered networks and the count of subnets is the number of their subnet
  records, whether or not they matched. For no discovered network the report has five
  empty buckets and both counts zero.
\<close>

theorem analyze_ip_usage_counts:
  "(analyze_ip_usage target vnets = Inr (r, out) \<longrightarrow>
      total_vnets_checked r = length vnets \<and>
      total_subnets_checked r = sum_list (map (\<lambda>v. length (subnets v)) vnets))
   \<and> analyze_ip_usage target [] =
       Inr (\<lparr>target_network = str_network target, is_host = (prefixlen target = 32),
             matches = \<lparr>exact = [], contains = [], contained = [], overlap = [],
                        host_in_subnet = []\<rparr>,
             total_vnets_checked = 0, total_subnets_checked = 0\<rparr>,
            [AnalyzingNetwork (str_network target), CheckingVNets 0])"
proof -
  have "counters (r, out) = (length vnets, sum_list (map (\<lambda>v. length (subnets v)) vnets))"
    if "analyze_ip_usage target vnets = Inr (r, out)"
    using analyze_vnets_counters [OF that [unfolded analyze_ip_usage_def]]
    by (simp add: counters_def initial_results_def)
  then show ?thesis
    by (simp add: counters_def analyze_ip_usage_def initial_results_def)
qed

theorem analyze_ip_usage_counts_witness:
  "\<not> isl (analyze_ip_usage example_target example_vnets) \<and>
   total_vnets_checked (fst (projr (analyze_ip_usage example_target example_vnets))) = 1 \<and>
   total_subnets_checked (fst (projr (analyze_ip_usage example_target example_vnets))) = 2"
proof -
  have ok: "\<not> isl (analyze_ip_usage example_target example_vnets)"
    by code_simp
  then obtain r out where e: "analyze_ip_usage example_target example_vnets = Inr (r, out)"
    by (cases "analyze_ip_usage example_target example_vnets") auto
  have "length example_vnets = 1"
    and "sum_list (map (\<lambda>v. length (subnets v)) example_vnets) = 2"
    by (simp_all add: example_vnets_def)
  then show ?thesis
    using ok e analyze_ip_usage_counts [of example_target example_vnets r out] by simp
qed

section \<open>A malformed mask in a run\<close>

text \<open>
  C2. A prefix with a malformed address is skipped with a warning, as the two lemmas
  on \<open>AddressValueError\<close> above show. A prefix with a malformed mask is not: the
  parser raises \<open>NetmaskValueError\<close>, neither loop catches it, and the run ends
  without a report. Evaluated here on an address space \<^verbatim>\<open>10.0.0.0/33\<close> and on a
  subnet \<^verbatim>\<open>10.0.1.0/40\<close>, each followed by well-formed prefixes.
\<close>

theorem analyze_ip_usage_bad_mask_raises:
  "IPv4Network_nonstrict ''10.0.0.0/33'' = Inl NetmaskValueError \<and>
   analyze_ip_usage example_target bad_mask_vnets = Inl NetmaskValueError \<and>
   IPv4Network_nonstrict ''10.0.1.0/40'' = Inl NetmaskValueError \<and>
   analyze_ip_usage example_target bad_mask_subnet_vnets = Inl NetmaskValueError"
  by code_simp

section \<open>The host check and the buckets\<close>





text \<open>
  C4. For a valid target, in every report that \<open>analyze_ip_usage\<close> returns each Match
  of a bucket carries the relationship that names the bucket, so no Match is in two
  buckets. An address space or a subnet whose prefix parses adds one Match to the
  buckets when its classification is not \<open>NoRel\<close>, and leaves the state as it is when
  the classification is \<open>NoRel\<close>.
\<close>

theorem matches_in_exactly_one_bucket:
  assumes "valid_network target"
  shows
    "(analyze_ip_usage target vnets = Inr (r, out) \<longrightarrow>
        buckets_labelled r \<and>
        (\<forall>k xs k' ys m. (k, xs) \<in> set (items (matches r)) \<and> (k', ys) \<in> set (items (matches r)) \<and>
           m \<in> set xs \<and> m \<in> set ys \<longrightarrow> k = k'))
     \<and> (IPv4Network_nonstrict prefix = Inr n \<longrightarrow>
          (\<exists>st'. analyze_address_prefix target vnet_name rg prefix st = Inr st' \<and>
             total_matches (fst st') =
               total_matches (fst st) + (if is_subnet_overlap target n = NoRel then 0 else 1) \<and>
             (is_subnet_overlap target n = NoRel \<longrightarrow> st' = st)))
     \<and> (IPv4Network_nonstrict (address_prefix sn) = Inr n \<longrightarrow>
          (\<exists>st'. analyze_subnet target sn vnet_name rg st = Inr st' \<and>
             total_matches (fst st') =
               total_matches (fst st) + (if is_subnet_overlap target n = NoRel then 0 else 1) \<and>
             (is_subnet_overlap target n = NoRel \<longrightarrow> st' = st)))"
proof (intro conjI impI)
  assume "analyze_ip_usage target vnets = Inr (r, out)"
  then show l: "buckets_labelled r"
    by (rule analyze_ip_usage_labelled)
  show "\<forall>k xs k' ys m. (k, xs) \<in> set (items (matches r)) \<and> (k', ys) \<in> set (items (matches r)) \<and>
           m \<in> set xs \<and> m \<in> set ys \<longrightarrow> k = k'"
    using buckets_labelled_unique [OF l] by blast
next
  assume "IPv4Network_nonstrict prefix = Inr n"
  then have "analyze_address_prefix target vnet_name rg prefix st =
             Inr (classify_address_space target n vnet_name rg st)"
    by (simp add: analyze_address_prefix_def)
  then show "\<exists>st'. analyze_address_prefix target vnet_name rg prefix st = Inr st' \<and>
             total_matches (fst st') =
               total_matches (fst st) + (if is_subnet_overlap target n = NoRel then 0 else 1) \<and>
             (is_subnet_overlap target n = NoRel \<longrightarrow> st' = st)"
    by (simp add: classify_address_space_total classify_address_space_none)
next
  assume p: "IPv4Network_nonstrict (address_prefix sn) = Inr n"
  then have v: "valid_network n"
    by (rule IPv4Network_nonstrict_valid)
  show "\<exists>st'. analyze_subnet target sn vnet_name rg st = Inr st' \<and>
             total_matches (fst st') =
               total_matches (fst st) + (if is_subnet_overlap target n = NoRel then 0 else 1) \<and>
             (is_subnet_overlap target n = NoRel \<longrightarrow> st' = st)"
  proof (cases "prefixlen target = 32 \<and> check_host_in_network target n")
    case True
    then have "is_subnet_overlap target n \<noteq> NoRel"
      using host_inside_not_none [OF assms v] by simp
    then show ?thesis
      using True p by (simp add: analyze_subnet_def append_host_in_subnet_total)
  next
    case False
    then have "analyze_subnet target sn vnet_name rg st =
               Inr (classify_subnet target (sn_name sn) n vnet_name rg st)"
      using p by (auto simp add: analyze_subnet_def)
    then show ?thesis
      by (simp add: classify_subnet_total classify_subnet_none)
  qed
qed

theorem matches_in_exactly_one_bucket_witness:
  "valid_network example_target \<and>
   \<not> isl (analyze_ip_usage example_target example_vnets) \<and>
   buckets_labelled (fst (projr (analyze_ip_usage example_target example_vnets))) \<and>
   IPv4Network_nonstrict (address_prefix example_far_subnet)
     = Inr \<lparr>network_address = 167772416, prefixlen = 24\<rparr> \<and>
   is_subnet_overlap example_target \<lparr>network_address = 167772416, prefixlen = 24\<rparr> = NoRel \<and>
   analyze_subnet example_target example_far_subnet ''v'' ''rg'' example_state = Inr example_state \<and>
   IPv4Network_nonstrict ''10.0.0.0/16'' = Inr \<lparr>network_address = 167772160, prefixlen = 16\<rparr> \<and>
   is_subnet_overlap example_target \<lparr>network_address = 167772160, prefixlen = 16\<rparr> = Contained \<and>
   total_matches (fst (projr (analyze_address_prefix example_target ''v'' ''rg'' ''10.0.0.0/16''
     example_state))) = total_matches (fst example_state) + 1"
proof -
  have v: "valid_network example_target"
    by code_simp
  have ok: "\<not> isl (analyze_ip_usage example_target example_vnets)"
    by code_simp
  then obtain r out where e: "analyze_ip_usage example_target example_vnets = Inr (r, out)"
    by (cases "analyze_ip_usage example_target example_vnets") auto
  have p: "IPv4Network_nonstrict (address_prefix example_far_subnet)
     = Inr \<lparr>network_address = 167772416, prefixlen = 24\<rparr>"
    by code_simp
  have c: "is_subnet_overlap example_target \<lparr>network_address = 167772416, prefixlen = 24\<rparr> = NoRel"
    by code_simp
  have q: "IPv4Network_nonstrict ''10.0.0.0/16'' = Inr \<lparr>network_address = 167772160, prefixlen = 16\<rparr>"
    by code_simp
  have d: "is_subnet_overlap example_target \<lparr>network_address = 167772160, prefixlen = 16\<rparr> = Contained"
    by code_simp
  have l: "buckets_labelled (fst (projr (analyze_ip_usage example_target example_vnets)))"
    using e matches_in_exactly_one_bucket [OF v, of example_vnets r out] by simp
  have s: "analyze_subnet example_target example_far_subnet ''v'' ''rg'' example_state = Inr example_state"
    using p c
      matches_in_exactly_one_bucket [OF v, where vnets = example_vnets and r = r and out = out
        and prefix = "''10.0.1.0/24''" and sn = example_far_subnet
        and n = "\<lparr>network_address = 167772416, prefixlen = 24\<rparr>"
        and vnet_name = "''v''" and rg = "''rg''" and st = example_state]
    by auto
  have t: "total_matches (fst (projr (analyze_address_prefix example_target ''v'' ''rg'' ''10.0.0.0/16''
     example_state))) = total_matches (fst example_state) + 1"
    using q d
      matches_in_exactly_one_bucket [OF v, where vnets = example_vnets and r = r and out = out
        and sn = example_subnet and prefix = "''10.0.0.0/16''"
        and n = "\<lparr>network_address = 167772160, prefixlen = 16\<rparr>"
        and vnet_name = "''v''" and rg = "''rg''" and st = example_state]
    by auto
  show ?thesis
    using v ok l p c s q d t by simp
qed

text \<open>
  C10. Let the target be a valid network of prefix length 32 and let the prefix of a
  subnet record parse to \<open>n\<close>. If the host is inside \<open>n\<close>, \<open>analyze_subnet\<close> records the
  Match \<open>host_match\<close> in the bucket \<open>host_in_subnet\<close>; this is the case when \<open>n\<close> is the
  target itself. If the host is not inside \<open>n\<close>, the classification is \<open>NoRel\<close> and the
  state is unchanged. So in every report for such a target the buckets \<open>exact\<close>,
  \<open>contains\<close>, \<open>contained\<close> and \<open>overlap\<close> hold no Match of type subnet, and every
  Match in \<open>host_in_subnet\<close> is of type subnet with relationship \<open>HostInSubnet\<close>.
\<close>

theorem host_target_subnets_only_as_host:
  assumes "valid_network target" and "prefixlen target = 32"
  shows
    "(IPv4Network_nonstrict (address_prefix sn) = Inr n \<longrightarrow>
        (check_host_in_network target n \<longrightarrow>
           analyze_subnet target sn vnet_name rg st =
             Inr (append_host_in_subnet (host_match sn n vnet_name rg) (fst st),
                  snd st @ [HostFound (sn_name sn) (str_network n)])) \<and>
        (\<not> check_host_in_network target n \<longrightarrow>
           is_subnet_overlap target n = NoRel \<and>
           analyze_subnet target sn vnet_name rg st = Inr st) \<and>
        (n = target \<longrightarrow> check_host_in_network target n))
     \<and> (analyze_ip_usage target vnets = Inr (r, out) \<longrightarrow>
          list_all (\<lambda>m. m_type m = type_vnet_address_space)
            (exact (matches r) @ contains (matches r) @ contained (matches r) @ overlap (matches r)) \<and>
          list_all (\<lambda>m. m_type m = type_subnet \<and> m_relationship m = HostInSubnet)
            (host_in_subnet (matches r)))"
proof (intro conjI impI)
  assume p: "IPv4Network_nonstrict (address_prefix sn) = Inr n"
  note step = analyze_subnet_host_target [OF assms p, of vnet_name rg st]
  {
    assume "check_host_in_network target n"
    then show "analyze_subnet target sn vnet_name rg st =
             Inr (append_host_in_subnet (host_match sn n vnet_name rg) (fst st),
                  snd st @ [HostFound (sn_name sn) (str_network n)])"
      using step by simp
  }
  {
    assume c: "\<not> check_host_in_network target n"
    have "valid_network n"
      using p by (rule IPv4Network_nonstrict_valid)
    with assms show "is_subnet_overlap target n = NoRel"
      using c by (intro host_outside_none)
    show "analyze_subnet target sn vnet_name rg st = Inr st"
      using step c by simp
  }
  {
    assume "n = target"
    then show "check_host_in_network target n"
      using assms network_in_addresses [OF assms(1)] check_host_iff_member [OF assms(1) assms(1)]
      by simp
  }
next
  assume "analyze_ip_usage target vnets = Inr (r, out)"
  with assms have inv: "subnets_only_as_host r"
    by (rule analyze_ip_usage_only_host)
  from inv show "list_all (\<lambda>m. m_type m = type_vnet_address_space)
            (exact (matches r) @ contains (matches r) @ contained (matches r) @ overlap (matches r))"
    by (simp add: subnets_only_as_host_def)
  from inv show "list_all (\<lambda>m. m_type m = type_subnet \<and> m_relationship m = HostInSubnet)
            (host_in_subnet (matches r))"
    by (simp add: subnets_only_as_host_def)
qed

theorem host_target_subnets_only_as_host_witness:
  "valid_network example_host \<and> prefixlen example_host = 32 \<and>
   IPv4Network_nonstrict ''10.0.0.5/32'' = Inr example_host \<and>
   check_host_in_network example_host example_host \<and>
   analyze_subnet example_host \<lparr>sn_name = ''h'', address_prefix = ''10.0.0.5/32''\<rparr> ''v'' ''rg''
       example_state =
     Inr (append_host_in_subnet
            (host_match \<lparr>sn_name = ''h'', address_prefix = ''10.0.0.5/32''\<rparr> example_host ''v'' ''rg'')
            (fst example_state),
          snd example_state @ [HostFound ''h'' (str_network example_host)]) \<and>
   IPv4Network_nonstrict (address_prefix example_far_subnet)
     = Inr \<lparr>network_address = 167772416, prefixlen = 24\<rparr> \<and>
   \<not> check_host_in_network example_host \<lparr>network_address = 167772416, prefixlen = 24\<rparr> \<and>
   analyze_subnet example_host example_far_subnet ''v'' ''rg'' example_state = Inr example_state \<and>
   \<not> isl (analyze_ip_usage example_host example_host_vnets) \<and>
   length (host_in_subnet (matches (fst (projr (analyze_ip_usage example_host example_host_vnets))))) = 2 \<and>
   list_all (\<lambda>m. m_type m = type_subnet \<and> m_relationship m = HostInSubnet)
     (host_in_subnet (matches (fst (projr (analyze_ip_usage example_host example_host_vnets)))))"
proof -
  have v: "valid_network example_host"
    by code_simp
  have h: "prefixlen example_host = 32"
    by (simp add: example_host_def)
  have p: "IPv4Network_nonstrict ''10.0.0.5/32'' = Inr example_host"
    by code_simp
  have q: "IPv4Network_nonstrict (address_prefix example_far_subnet)
     = Inr \<lparr>network_address = 167772416, prefixlen = 24\<rparr>"
    by code_simp
  have c: "\<not> check_host_in_network example_host \<lparr>network_address = 167772416, prefixlen = 24\<rparr>"
    by code_simp
  have ok: "\<not> isl (analyze_ip_usage example_host example_host_vnets)"
    by code_simp
  then obtain r out where e: "analyze_ip_usage example_host example_host_vnets = Inr (r, out)"
    by (cases "analyze_ip_usage example_host example_host_vnets") auto
  have n: "length (host_in_subnet (matches (fst (projr (analyze_ip_usage example_host
      example_host_vnets))))) = 2"
    by code_simp
  have a: "check_host_in_network example_host example_host \<and>
     analyze_subnet example_host \<lparr>sn_name = ''h'', address_prefix = ''10.0.0.5/32''\<rparr> ''v'' ''rg''
       example_state =
     Inr (append_host_in_subnet
            (host_match \<lparr>sn_name = ''h'', address_prefix = ''10.0.0.5/32''\<rparr> example_host ''v'' ''rg'')
            (fst example_state),
          snd example_state @ [HostFound ''h'' (str_network example_host)])"
    using p host_target_subnets_only_as_host [OF v h,
        where sn = "\<lparr>sn_name = ''h'', address_prefix = ''10.0.0.5/32''\<rparr>" and n = example_host
        and vnet_name = "''v''" and rg = "''rg''" and st = example_state
        and vnets = example_host_vnets and r = r and out = out]
    by simp
  have b: "analyze_subnet example_host example_far_subnet ''v'' ''rg'' example_state = Inr example_state"
    using q c host_target_subnets_only_as_host [OF v h,
        where sn = example_far_subnet and n = "\<lparr>network_address = 167772416, prefixlen = 24\<rparr>"
        and vnet_name = "''v''" and rg = "''rg''" and st = example_state
        and vnets = example_host_vnets and r = r and out = out]
    by simp
  have l: "list_all (\<lambda>m. m_type m = type_subnet \<and> m_relationship m = HostInSubnet)
     (host_in_subnet (matches (fst (projr (analyze_ip_usage example_host example_host_vnets)))))"
    using e host_target_subnets_only_as_host [OF v h,
        where sn = example_far_subnet and n = "\<lparr>network_address = 167772416, prefixlen = 24\<rparr>"
        and vnet_name = "''v''" and rg = "''rg''" and st = example_state
        and vnets = example_host_vnets and r = r and out = out]
    by simp
  show ?thesis
    using v h p q c ok n a b l by simp
qed

section \<open>What the validator accepts\<close>

text \<open>
  C7, as the claim states it, fails: an input without a slash that is a valid
  dotted quad is not always accepted, and one that is not a valid dotted quad does not
  always fail with \<open>MalformedAddress\<close>. The multicast address 224.0.0.5 and the
  reserved address 240.0.0.1 are rejected as \<open>UnsupportedAddressClass\<close>, the public
  address 8.8.8.8 is rejected as \<open>UserCancelled\<close> when the user answers \<^verbatim>\<open>n\<close>, and
  an input of blanks fails with \<open>EmptyInput\<close>.
\<close>

theorem validate_input_single_host_counterexample:
  "CHR ''/'' \<notin> set ''224.0.0.5'' \<and>
   IPv4Address (strip ''224.0.0.5'') = Inr 3758096389 \<and>
   validate_input example_is_global ''n'' ''224.0.0.5'' = Inl (UnsupportedAddressClass Multicast) \<and>
   CHR ''/'' \<notin> set ''240.0.0.1'' \<and>
   IPv4Address (strip ''240.0.0.1'') = Inr 4026531841 \<and>
   validate_input example_is_global ''n'' ''240.0.0.1'' = Inl (UnsupportedAddressClass ClassE) \<and>
   CHR ''/'' \<notin> set ''8.8.8.8'' \<and>
   IPv4Address (strip ''8.8.8.8'') = Inr 134744072 \<and>
   validate_input example_is_global ''n'' ''8.8.8.8'' = Inl UserCancelled \<and>
   CHR ''/'' \<notin> set ''  '' \<and>
   IPv4Address (strip ''  '') = Inl AddressValueError \<and>
   validate_input example_is_global ''n'' ''  '' = Inl EmptyInput"
  by code_simp

text \<open>
  C7, amended. For an input without a slash: if nothing is left after trimming, the
  result is \<open>EmptyInput\<close>; if what is left is not a valid dotted quad, the result is
  \<open>MalformedAddress\<close>; if it is the dotted quad of the address \<open>ip\<close>, the result is
  \<open>UnsupportedAddressClass\<close> when \<open>ip\<close> lies in 224.0.0.0 to 239.255.255.255 or is at
  least 240.0.0.0, \<open>UserCancelled\<close> when the host network is global and the user
  does not answer \<^verbatim>\<open>y\<close> or \<^verbatim>\<open>yes\<close>, and otherwise the network \<open>ip\<close>/32.
\<close>

theorem validate_input_single_host:
  assumes "CHR ''/'' \<notin> set ip_input"
  shows "validate_input is_global answer ip_input =
           (if strip ip_input = [] then Inl EmptyInput
            else case IPv4Address (strip ip_input) of
                   Inl e \<Rightarrow> Inl MalformedAddress
                 | Inr ip \<Rightarrow>
                     if 3758096384 \<le> ip \<and> ip \<le> 4026531839
                     then Inl (UnsupportedAddressClass Multicast)
                     else if ip \<ge> 4026531840 then Inl (UnsupportedAddressClass ClassE)
                     else if is_global \<lparr>network_address = ip, prefixlen = 32\<rparr> \<and>
                             lower (strip answer) \<notin> set [''y'', ''yes'']
                     then Inl UserCancelled
                     else Inr \<lparr>network_address = ip, prefixlen = 32\<rparr>)"
proof -
  have ns: "CHR ''/'' \<notin> set (strip ip_input)"
    using assms set_strip [of ip_input] by auto
  show ?thesis
  proof (cases "IPv4Address (strip ip_input)")
    case (Inl e)
    then show ?thesis
      using ns by (simp add: validate_input_def)
  next
    case (Inr ip)
    then have ne: "strip ip_input \<noteq> []"
      using IPv4Address_empty by auto
    have r: "0 \<le> ip" "ip \<le> ALL_ONES"
      using IPv4Address_range [OF Inr] by simp_all
    have p: "IPv4Network_nonstrict (cidr_input ip_input) = Inr \<lparr>network_address = ip, prefixlen = 32\<rparr>"
      using ns Inr by (simp add: cidr_input_def IPv4Network_nonstrict_host)
    have m: "is_multicast \<lparr>network_address = ip, prefixlen = 32\<rparr> \<longleftrightarrow>
             3758096384 \<le> ip \<and> ip \<le> 4026531839"
      using is_multicast_iff [OF host_network_valid [OF r]] host_network_broadcast [OF r]
      by auto
    show ?thesis
      using ne Inr by (simp add: validate_input_parsed [OF p] m)
  qed
qed

theorem validate_input_single_host_witness:
  "CHR ''/'' \<notin> set '' 10.0.0.1 '' \<and>
   strip '' 10.0.0.1 '' = ''10.0.0.1'' \<and>
   IPv4Address ''10.0.0.1'' = Inr 167772161 \<and>
   validate_input example_is_global ''n'' '' 10.0.0.1 ''
     = Inr \<lparr>network_address = 167772161, prefixlen = 32\<rparr>"
proof -
  have a: "CHR ''/'' \<notin> set '' 10.0.0.1 ''"
    by simp
  have b: "strip '' 10.0.0.1 '' = ''10.0.0.1''"
    by code_simp
  have c: "IPv4Address ''10.0.0.1'' = Inr 167772161"
    by code_simp
  have d: "\<not> example_is_global \<lparr>network_address = 167772161, prefixlen = 32\<rparr>"
    by (simp add: example_is_global_def)
  show ?thesis
    using a b c d validate_input_single_host [OF a, of example_is_global "''n''"]
    by simp
qed

lemma IPv4Network_nonstrict_address:
  assumes "IPv4Network_nonstrict s = Inr n"
  shows "\<exists>ip. IPv4Address (hd (split CHR ''/'' s)) = Inr ip \<and>
              network_address n = ip AND ip_int_from_prefix (prefixlen n)"
  using assms
  by (auto simp add: IPv4Network_nonstrict_def Let_def split: if_splits sum.splits)

lemma masked_ge_aligned:
  fixes x N :: int
  assumes "N mod 2 ^ k = 0" "N \<le> x"
  shows "N \<le> x - x mod 2 ^ k"
proof -
  have "N div 2 ^ k \<le> x div 2 ^ k"
    using assms(2) by (intro zdiv_mono1) simp_all
  then have "2 ^ k * (N div 2 ^ k) \<le> 2 ^ k * (x div 2 ^ k)"
    by (intro mult_left_mono) simp_all
  moreover have "2 ^ k * (N div 2 ^ k) = N"
    using assms(1) by (simp add: mod_0_imp_dvd)
  moreover have "2 ^ k * (x div 2 ^ k) = x - x mod 2 ^ k"
    by (simp add: minus_mod_eq_mult_div)
  ultimately show ?thesis by simp
qed

lemma masked_class_e:
  fixes ip :: int
  assumes "0 \<le> ip" "ip \<le> ALL_ONES" "p \<le> 32" "4 \<le> p" "4026531840 \<le> ip"
  shows "4026531840 \<le> ip AND ip_int_from_prefix p"
proof -
  have "(2::int) ^ (32 - p) dvd 2 ^ 28"
    using assms(4) by (intro le_imp_power_dvd) simp
  moreover have "(2::int) ^ 28 dvd 4026531840"
    by simp
  ultimately have "(4026531840::int) mod 2 ^ (32 - p) = 0"
    using dvd_trans by (intro dvd_imp_mod_0) blast
  then have "4026531840 \<le> ip - ip mod 2 ^ (32 - p)"
    using assms(5) by (rule masked_ge_aligned)
  then show ?thesis
    by (simp add: and_netmask [OF assms(1,2,3)])
qed

text \<open>
  C8, as the claim states it, fails for an input whose address is at or above
  240.0.0.0 but whose mask is shorter than four bits: the host bits are cleared before
  the guards run. The input \<^verbatim>\<open>250.1.2.3/3\<close> is parsed to 224.0.0.0/3, which is
  neither inside 224.0.0.0/4 nor starts at or above 240.0.0.0, and is returned once
  the user has confirmed the public address.
\<close>

theorem validate_input_class_e_counterexample:
  "IPv4Address (input_address ''250.1.2.3/3'') = Inr 4194370051 \<and>
   (4026531840 :: int) \<le> 4194370051 \<and>
   validate_input always_global ''y'' ''250.1.2.3/3''
     = Inr \<lparr>network_address = 3758096384, prefixlen = 3\<rparr>"
  by code_simp

text \<open>
  C8, amended. When \<open>validate_input\<close> has parsed its input to a network (host bits
  cleared) that lies inside 224.0.0.0/4 (from 224.0.0.0 to 239.255.255.255) it fails
  with \<open>UnsupportedAddressClass\<close>, and so it does when the network address of the
  parsed network is at or above 240.0.0.0; that is the case whenever the address of the
  input is at or above 240.0.0.0 and the prefix length is at least 4. No network that
  it returns lies inside 224.0.0.0/4 or starts at or above 240.0.0.0.
\<close>

theorem validate_input_rejects_multicast_and_class_e:
  "(IPv4Network_nonstrict (cidr_input ip_input) = Inr network \<longrightarrow>
      (3758096384 \<le> network_address network \<and> broadcast_address network \<le> 4026531839 \<longrightarrow>
         validate_input is_global answer ip_input = Inl (UnsupportedAddressClass Multicast)) \<and>
      (network_address network \<ge> 4026531840 \<longrightarrow>
         validate_input is_global answer ip_input = Inl (UnsupportedAddressClass ClassE)) \<and>
      (IPv4Address (input_address ip_input) = Inr ip \<and> ip \<ge> 4026531840 \<and>
       prefixlen network \<ge> 4 \<longrightarrow>
         validate_input is_global answer ip_input = Inl (UnsupportedAddressClass ClassE)))
   \<and> (validate_input is_global answer ip_input = Inr network \<longrightarrow>
        valid_network network \<and>
        \<not> (3758096384 \<le> network_address network \<and> broadcast_address network \<le> 4026531839) \<and>
        network_address network < 4026531840)"
proof (intro conjI impI)
  assume p: "IPv4Network_nonstrict (cidr_input ip_input) = Inr network"
  then have v: "valid_network network"
    by (rule IPv4Network_nonstrict_valid)
  {
    assume "3758096384 \<le> network_address network \<and> broadcast_address network \<le> 4026531839"
    then show "validate_input is_global answer ip_input = Inl (UnsupportedAddressClass Multicast)"
      by (simp add: validate_input_parsed [OF p] is_multicast_iff [OF v])
  }
  have class_e: "validate_input is_global answer ip_input = Inl (UnsupportedAddressClass ClassE)"
    if c: "network_address network \<ge> 4026531840"
  proof -
    have "\<not> is_multicast network"
      using c network_le_broadcast [OF v] by (simp add: is_multicast_iff [OF v])
    then show ?thesis
      using c by (simp add: validate_input_parsed [OF p])
  qed
  {
    assume "network_address network \<ge> 4026531840"
    then show "validate_input is_global answer ip_input = Inl (UnsupportedAddressClass ClassE)"
      by (rule class_e)
  }
  {
    assume a: "IPv4Address (input_address ip_input) = Inr ip \<and> ip \<ge> 4026531840 \<and>
       prefixlen network \<ge> 4"
    then have "network_address network = ip AND ip_int_from_prefix (prefixlen network)"
      using IPv4Network_nonstrict_address [OF p] by (simp add: input_address_def)
    moreover have "4026531840 \<le> ip AND ip_int_from_prefix (prefixlen network)"
      using a IPv4Address_range [of "input_address ip_input" ip] v
      by (intro masked_class_e) (simp_all add: valid_network_def max_prefixlen_def)
    ultimately show "validate_input is_global answer ip_input = Inl (UnsupportedAddressClass ClassE)"
      by (intro class_e) simp
  }
next
  assume s: "validate_input is_global answer ip_input = Inr network"
  then have p: "IPv4Network_nonstrict (cidr_input ip_input) = Inr network"
    by (rule validate_input_success)
  then show v: "valid_network network"
    by (rule IPv4Network_nonstrict_valid)
  have "\<not> is_multicast network \<and> \<not> network_address network \<ge> 4026531840"
    using s unfolding validate_input_parsed [OF p] by (auto split: if_splits)
  then show "\<not> (3758096384 \<le> network_address network \<and> broadcast_address network \<le> 4026531839)"
    and "network_address network < 4026531840"
    by (simp_all add: is_multicast_iff [OF v])
qed

theorem validate_input_rejects_multicast_and_class_e_witness:
  "IPv4Network_nonstrict (cidr_input ''224.0.0.5/32'')
     = Inr \<lparr>network_address = 3758096389, prefixlen = 32\<rparr> \<and>
   broadcast_address \<lparr>network_address = 3758096389, prefixlen = 32\<rparr> = 3758096389 \<and>
   validate_input example_is_global ''n'' ''224.0.0.5/32'' = Inl (UnsupportedAddressClass Multicast) \<and>
   IPv4Network_nonstrict (cidr_input ''250.1.2.3/8'')
     = Inr \<lparr>network_address = 4194304000, prefixlen = 8\<rparr> \<and>
   validate_input example_is_global ''n'' ''250.1.2.3/8'' = Inl (UnsupportedAddressClass ClassE) \<and>
   IPv4Address (input_address ''250.1.2.3/8'') = Inr 4194370051 \<and>
   validate_input example_is_global ''n'' ''10.0.0.5/24'' = Inr example_target \<and>
   valid_network example_target \<and> network_address example_target < 4026531840"
proof -
  have a: "IPv4Network_nonstrict (cidr_input ''224.0.0.5/32'')
     = Inr \<lparr>network_address = 3758096389, prefixlen = 32\<rparr>"
    by code_simp
  have b: "broadcast_address \<lparr>network_address = 3758096389, prefixlen = 32\<rparr> = 3758096389"
    by code_simp
  have c: "IPv4Network_nonstrict (cidr_input ''250.1.2.3/8'')
     = Inr \<lparr>network_address = 4194304000, prefixlen = 8\<rparr>"
    by code_simp
  have d: "validate_input example_is_global ''n'' ''10.0.0.5/24'' = Inr example_target"
    by code_simp
  have i: "IPv4Address (input_address ''250.1.2.3/8'') = Inr 4194370051"
    by code_simp
  have e: "validate_input example_is_global ''n'' ''224.0.0.5/32'' = Inl (UnsupportedAddressClass Multicast)"
    using a b validate_input_rejects_multicast_and_class_e [where ip_input = "''224.0.0.5/32''"
        and network = "\<lparr>network_address = 3758096389, prefixlen = 32\<rparr>"
        and is_global = example_is_global and answer = "''n''" and ip = 0]
    by simp
  have f: "validate_input example_is_global ''n'' ''250.1.2.3/8'' = Inl (UnsupportedAddressClass ClassE)"
    using c i validate_input_rejects_multicast_and_class_e [where ip_input = "''250.1.2.3/8''"
        and network = "\<lparr>network_address = 4194304000, prefixlen = 8\<rparr>"
        and is_global = example_is_global and answer = "''n''" and ip = 4194370051]
    by simp
  have g: "valid_network example_target \<and> network_address example_target < 4026531840"
    using d validate_input_rejects_multicast_and_class_e [where ip_input = "''10.0.0.5/24''"
        and network = example_target and is_global = example_is_global and answer = "''n''"
        and ip = 0]
    by simp
  show ?thesis
    using a b c d e f g i by simp
qed

end
